theory Spec2Isabelle
  imports Main "HOL-Library.Sublist" "HOL-Library.List_Lexorder" "HOL-Library.Char_ord"
begin

text \<open>
  The archive service of \<open>app.py\<close>: a table of items in SQLite, the uploaded files in a
  folder, and the handlers of the API routes. A handler is a function from the request
  and the state to the response and the new state. What a handler takes from its
  environment is an argument: the readings of the clock, the outcome of a write or of a
  removal, the platform. Requests are handled one after the other; where the order of the
  writes of one handler matters, the states after each write are given as a list.
\<close>

section \<open>Strings\<close>

text \<open>
  A Python \<open>str\<close> is modelled as a \<open>string\<close>; one \<open>char\<close> stands for one code point in
  the range U+0000 .. U+00FF, and the order on strings is the lexicographic order on code
  points (which is also SQLite's BINARY collation on such text). \<open>bytes\<close> is the content
  of a file.
\<close>

type_synonym bytes = "char list"

definition is_ascii :: "char \<Rightarrow> bool" where
  "is_ascii c = (of_char c < (128::nat))"

definition is_upper_ascii :: "char \<Rightarrow> bool" where
  "is_upper_ascii c = (CHR ''A'' \<le> c \<and> c \<le> CHR ''Z'')"

definition is_lower_ascii :: "char \<Rightarrow> bool" where
  "is_lower_ascii c = (CHR ''a'' \<le> c \<and> c \<le> CHR ''z'')"

definition is_digit :: "char \<Rightarrow> bool" where
  "is_digit c = (CHR ''0'' \<le> c \<and> c \<le> CHR ''9'')"

definition is_alnum_ascii :: "char \<Rightarrow> bool" where
  "is_alnum_ascii c = (is_upper_ascii c \<or> is_lower_ascii c \<or> is_digit c)"

text \<open>\<open>str.isspace\<close> on one code point below U+0100.\<close>

definition py_isspace :: "char \<Rightarrow> bool" where
  "py_isspace c = (let n = (of_char c :: nat) in
     (9 \<le> n \<and> n \<le> 13) \<or> (28 \<le> n \<and> n \<le> 32) \<or> n = 133 \<or> n = 160)"

text \<open>\<open>str.strip()\<close>: whitespace removed at both ends.\<close>

definition py_strip :: "string \<Rightarrow> string" where
  "py_strip s = rev (dropWhile py_isspace (rev (dropWhile py_isspace s)))"

text \<open>
  \<open>str.lower()\<close>: the letters A to Z, and U+00C0 .. U+00DE without the multiplication
  sign U+00D7, move up by 32; every other code point below U+0100 stays.
\<close>

definition py_lower_char :: "char \<Rightarrow> char" where
  "py_lower_char c = (let n = (of_char c :: nat) in
     if (65 \<le> n \<and> n \<le> 90) \<or> (192 \<le> n \<and> n \<le> 222 \<and> n \<noteq> 215)
     then char_of (n + 32) else c)"

definition py_lower :: "string \<Rightarrow> string" where
  "py_lower s = map py_lower_char s"

text \<open>\<open>sep.join(parts)\<close>.\<close>

fun join :: "string \<Rightarrow> string list \<Rightarrow> string" where
  "join sep [] = []"
| "join sep [x] = x"
| "join sep (x # y # ys) = x @ sep @ join sep (y # ys)"

text \<open>\<open>x or ""\<close> on a value that may be \<open>None\<close>.\<close>

definition or_empty :: "string option \<Rightarrow> string" where
  "or_empty v = (case v of None \<Rightarrow> [] | Some x \<Rightarrow> x)"

section \<open>Library functions the handlers call\<close>

subsection \<open>SQLite: \<open>lower()\<close> and \<open>LIKE\<close>\<close>

text \<open>
  SQLite's built-in \<open>lower()\<close> changes the letters A to Z only. \<open>pattern LIKE text\<close>
  compares letters of the ASCII range without regard to case; in the pattern, a percent
  sign matches any run of characters (also the empty one) and an underscore matches
  exactly one character. The queries of this program give no ESCAPE character.
\<close>

definition sql_lower_char :: "char \<Rightarrow> char" where
  "sql_lower_char c = (if is_upper_ascii c then char_of (of_char c + (32::nat)) else c)"

definition sql_lower :: "string \<Rightarrow> string" where
  "sql_lower s = map sql_lower_char s"

fun sql_like :: "string \<Rightarrow> string \<Rightarrow> bool" where
  "sql_like [] s = (s = [])"
| "sql_like (p # ps) [] = (p = CHR ''%'' \<and> sql_like ps [])"
| "sql_like (p # ps) (c # cs) =
     (if p = CHR ''%'' then sql_like ps (c # cs) \<or> sql_like (p # ps) cs
      else if p = CHR ''_'' then sql_like ps cs
      else sql_lower_char p = sql_lower_char c \<and> sql_like ps cs)"

subsection \<open>\<open>datetime\<close>\<close>

record datetime =
  year :: nat
  month :: nat
  day :: nat
  hour :: nat
  minute :: nat
  second :: nat
  microsecond :: nat

text \<open>
  The fields of a \<open>datetime\<close> object are in range by construction; \<open>utcnow()\<close> returns
  a year of four digits.
\<close>

definition valid_datetime :: "datetime \<Rightarrow> bool" where
  "valid_datetime t =
     (1000 \<le> year t \<and> year t \<le> 9999 \<and> 1 \<le> month t \<and> month t \<le> 12 \<and>
      1 \<le> day t \<and> day t \<le> 31 \<and> hour t < 24 \<and> minute t < 60 \<and> second t < 60 \<and>
      microsecond t < 1000000)"

text \<open>The last \<open>w\<close> decimal digits of \<open>n\<close>: what \<open>%0wd\<close> prints when \<open>n < 10 ^ w\<close>.\<close>

fun zpad :: "nat \<Rightarrow> nat \<Rightarrow> string" where
  "zpad 0 n = []"
| "zpad (Suc w) n = zpad w (n div 10) @ [''0123456789'' ! (n mod 10)]"

text \<open>\<open>t.strftime("%Y%m%d%H%M%S%f")\<close>\<close>

definition strftime_stamp :: "datetime \<Rightarrow> string" where
  "strftime_stamp t =
     zpad 4 (year t) @ zpad 2 (month t) @ zpad 2 (day t) @ zpad 2 (hour t) @
     zpad 2 (minute t) @ zpad 2 (second t) @ zpad 6 (microsecond t)"

text \<open>\<open>t.isoformat()\<close>: the fraction is left out when the microsecond is 0.\<close>

definition isoformat :: "datetime \<Rightarrow> string" where
  "isoformat t =
     zpad 4 (year t) @ ''-'' @ zpad 2 (month t) @ ''-'' @ zpad 2 (day t) @ ''T'' @
     zpad 2 (hour t) @ '':'' @ zpad 2 (minute t) @ '':'' @ zpad 2 (second t) @
     (if microsecond t = 0 then [] else ''.'' @ zpad 6 (microsecond t))"

subsection \<open>\<open>werkzeug.utils.secure_filename\<close>\<close>

text \<open>
  The platform the service runs on: whether \<open>os.name\<close> is \<open>"nt"\<close>, and the Unicode table
  behind \<open>unicodedata.normalize("NFKD", s).encode("ascii", "ignore")\<close>, namely the ASCII
  characters left of the compatibility decomposition of each code point. The table is
  not part of this program and stays a parameter.
\<close>

record platform =
  os_nt :: bool
  nfkd_ascii :: "char \<Rightarrow> string"

text \<open>\<open>os.path.sep\<close> and \<open>os.path.altsep\<close>: a slash, and on Windows also a backslash.\<close>

definition path_seps :: "platform \<Rightarrow> char set" where
  "path_seps p = (if os_nt p then {CHR 0x5C, CHR ''/''} else {CHR ''/''})"

text \<open>\<open>s.split()\<close>: the maximal runs of characters that are not whitespace.\<close>

fun split_ws :: "string \<Rightarrow> string \<Rightarrow> string list" where
  "split_ws cur [] = (if cur = [] then [] else [cur])"
| "split_ws cur (c # cs) =
     (if py_isspace c then (if cur = [] then split_ws [] cs else cur # split_ws [] cs)
      else split_ws (cur @ [c]) cs)"

definition py_split :: "string \<Rightarrow> string list" where
  "py_split s = split_ws [] s"

text \<open>\<open>s.strip(chars)\<close>\<close>

definition strip_chars :: "char set \<Rightarrow> string \<Rightarrow> string" where
  "strip_chars cs s = rev (dropWhile (\<lambda>c. c \<in> cs) (rev (dropWhile (\<lambda>c. c \<in> cs) s)))"

text \<open>The characters the expression \<open>[^A-Za-z0-9_.-]\<close> does not delete.\<close>

definition filename_char_ok :: "char \<Rightarrow> bool" where
  "filename_char_ok c = (is_alnum_ascii c \<or> c = CHR ''_'' \<or> c = CHR ''.'' \<or> c = CHR ''-'')"

definition windows_device_files :: "string set" where
  "windows_device_files =
     {''CON'', ''AUX'', ''COM1'', ''COM2'', ''COM3'', ''COM4'',
      ''LPT1'', ''LPT2'', ''LPT3'', ''PRN'', ''NUL''}"

definition ascii_upper_char :: "char \<Rightarrow> char" where
  "ascii_upper_char c = (if is_lower_ascii c then char_of (of_char c - (32::nat)) else c)"

definition secure_filename :: "platform \<Rightarrow> string \<Rightarrow> string" where
  "secure_filename p filename =
     (let ascii = concat (map (nfkd_ascii p) filename);
          spaced = map (\<lambda>c. if c \<in> path_seps p then CHR '' '' else c) ascii;
          joined = join ''_'' (py_split spaced);
          name = strip_chars {CHR ''.'', CHR ''_''} (filter filename_char_ok joined)
      in if os_nt p \<and> name \<noteq> [] \<and>
            map ascii_upper_char (takeWhile (\<lambda>c. c \<noteq> CHR ''.'') name) \<in> windows_device_files
         then CHR ''_'' # name else name)"

section \<open>Configuration and utility\<close>

definition ALLOWED_EXT :: "string set" where
  "ALLOWED_EXT = {''png'', ''jpg'', ''jpeg'', ''gif'', ''pdf'', ''mp3'', ''wav'', ''mp4'', ''txt''}"

text \<open>
  \<open>allowed_file\<close>: \<open>filename.rsplit(".", 1)[1]\<close> is the text after the last dot, read
  only when there is a dot.
\<close>

definition allowed_file :: "string \<Rightarrow> bool" where
  "allowed_file filename =
     (CHR ''.'' \<in> set filename \<and>
      py_lower (rev (takeWhile (\<lambda>c. c \<noteq> CHR ''.'') (rev filename))) \<in> ALLOWED_EXT)"

section \<open>State\<close>

text \<open>A row of the table \<open>items\<close>, with the columns of the schema.\<close>

record item =
  item_id :: nat
  filename :: string
  original_name :: string
  mime :: string
  title :: string
  description :: string
  tags :: string
  uploaded_at :: string

text \<open>
  The state of the service: the rows of \<open>items\<close> in the order of their insertion, the
  counter that SQLite keeps for an AUTOINCREMENT key (the largest key it has ever given),
  and the files of \<open>UPLOAD_FOLDER\<close> by name.
\<close>

record state =
  items :: "item list"
  sqlite_sequence :: nat
  uploads :: "string \<rightharpoonup> bytes"

text \<open>
  The file part of a multipart request, and the request of \<open>/api/upload\<close> as the handler
  reads it. The framework refuses a request longer than \<open>MAX_CONTENT_LENGTH\<close> with status
  413 before the handler sees its form; such a request is not an \<open>upload_request\<close>.
\<close>

record file_storage =
  f_filename :: string
  f_mimetype :: "string option"
  f_content :: bytes

record upload_request =
  files_file :: "file_storage option"
  form_title :: "string option"
  form_description :: "string option"
  form_tags :: "string option"

text \<open>
  What the environment decides during one upload: the two readings of the clock (lines
  240 and 254) and whether \<open>f.save\<close> succeeds. A failed write leaves no file
  (\<open>None\<close>) or a file with part of the content.
\<close>

datatype save_outcome = Saved | Save_failed "bytes option"

record upload_env =
  now_stamp :: datetime
  now_row :: datetime
  save_result :: save_outcome

datatype payload =
    Success_id nat
  | Success
  | Error string
  | Item_list "item list"
  | Item_json item
  | Attachment string bytes
  | Not_found_page
  | Internal_server_error

datatype response = Response nat payload

section \<open>API routes\<close>

subsection \<open>\<open>upload\<close>\<close>

text \<open>Lines 239 to 241: the name of the file on disk.\<close>

definition stored_name :: "platform \<Rightarrow> datetime \<Rightarrow> string \<Rightarrow> string" where
  "stored_name p now fname =
     (let orig = secure_filename p fname;
          timestamp = strftime_stamp now
      in timestamp @ ''_'' @ orig)"

text \<open>Line 243, \<open>f.save(filepath)\<close>: an existing file of that name is overwritten.\<close>

definition save_file :: "save_outcome \<Rightarrow> string \<Rightarrow> bytes \<Rightarrow> state \<Rightarrow> state" where
  "save_file outcome name content s =
     (case outcome of
        Saved \<Rightarrow> s\<lparr>uploads := (uploads s)(name \<mapsto> content)\<rparr>
      | Save_failed None \<Rightarrow> s
      | Save_failed (Some part) \<Rightarrow> s\<lparr>uploads := (uploads s)(name \<mapsto> part)\<rparr>)"

definition upload_saved :: "platform \<Rightarrow> upload_env \<Rightarrow> file_storage \<Rightarrow> state \<Rightarrow> state" where
  "upload_saved p env f s =
     save_file (save_result env) (stored_name p (now_stamp env) (f_filename f)) (f_content f) s"

text \<open>Lines 245 to 255: the values of the new row; its key is given by the insertion.\<close>

definition upload_row :: "platform \<Rightarrow> upload_env \<Rightarrow> upload_request \<Rightarrow> file_storage \<Rightarrow> item" where
  "upload_row p env req f =
     \<lparr>item_id = 0,
      filename = stored_name p (now_stamp env) (f_filename f),
      original_name = secure_filename p (f_filename f),
      mime = or_empty (f_mimetype f),
      title = py_strip (or_empty (form_title req)),
      description = py_strip (or_empty (form_description req)),
      tags = py_strip (or_empty (form_tags req)),
      uploaded_at = isoformat (now_row env)\<rparr>"

text \<open>
  An INSERT that names no key: the new key is one more than the largest that the table
  holds or has ever held, and \<open>cur.lastrowid\<close> returns it.
\<close>

definition next_rowid :: "state \<Rightarrow> nat" where
  "next_rowid s = Suc (max (sqlite_sequence s) (foldr max (map item_id (items s)) 0))"

definition insert_item :: "item \<Rightarrow> state \<Rightarrow> nat \<times> state" where
  "insert_item row s =
     (let lastrowid = next_rowid s
      in (lastrowid,
          s\<lparr>items := items s @ [row\<lparr>item_id := lastrowid\<rparr>], sqlite_sequence := lastrowid\<rparr>))"

text \<open>
  The handler. An exception of \<open>f.save\<close> is not caught: the request ends with status
  500 before the INSERT.
\<close>

definition upload :: "platform \<Rightarrow> upload_env \<Rightarrow> upload_request \<Rightarrow> state \<Rightarrow> response \<times> state" where
  "upload p env req s =
     (case files_file req of
        None \<Rightarrow> (Response 400 (Error ''No file part''), s)
      | Some f \<Rightarrow>
          if f_filename f = [] then (Response 400 (Error ''No selected file''), s)
          else if \<not> allowed_file (f_filename f) then
            (Response 400
               (Error (''File type not allowed. Allowed: '' @
                       join '', '' (sorted_list_of_set ALLOWED_EXT))), s)
          else
            let s1 = upload_saved p env f s
            in if save_result env \<noteq> Saved then (Response 500 Internal_server_error, s1)
               else
                 let (lastrowid, s2) = insert_item (upload_row p env req f) s1
                 in (Response 201 (Success_id lastrowid), s2))"

text \<open>The states that a reader can see during \<open>upload\<close>, one after each write.\<close>

definition upload_trace :: "platform \<Rightarrow> upload_env \<Rightarrow> upload_request \<Rightarrow> state \<Rightarrow> state list" where
  "upload_trace p env req s =
     (case files_file req of
        None \<Rightarrow> []
      | Some f \<Rightarrow>
          if f_filename f = [] \<or> \<not> allowed_file (f_filename f) then []
          else
            let s1 = upload_saved p env f s
            in if save_result env \<noteq> Saved then [s1]
               else [s1, snd (insert_item (upload_row p env req f) s1)])"

subsection \<open>\<open>list_items\<close>\<close>

text \<open>
  \<open>ORDER BY uploaded_at DESC\<close>, on text. SQL leaves the order of rows with equal keys
  open; here the later row comes first.
\<close>

definition order_by_uploaded_at_desc :: "item list \<Rightarrow> item list" where
  "order_by_uploaded_at_desc rows = rev (sort_key uploaded_at rows)"

definition list_items :: "string option \<Rightarrow> state \<Rightarrow> response" where
  "list_items args_q s =
     (let q = py_lower (py_strip (or_empty args_q))
      in if q \<noteq> [] then
           let like = ''%'' @ q @ ''%''
           in Response 200 (Item_list (order_by_uploaded_at_desc
                (filter (\<lambda>r. sql_like like (sql_lower (title r)) \<or>
                              sql_like like (sql_lower (description r)) \<or>
                              sql_like like (sql_lower (tags r))) (items s))))
         else Response 200 (Item_list (order_by_uploaded_at_desc (items s))))"

subsection \<open>\<open>get_item\<close>, \<open>download\<close>\<close>

text \<open>\<open>SELECT ... WHERE id=?\<close> with \<open>fetchone()\<close>.\<close>

definition select_by_id :: "nat \<Rightarrow> state \<Rightarrow> item option" where
  "select_by_id i s = find (\<lambda>r. item_id r = i) (items s)"

definition get_item :: "nat \<Rightarrow> state \<Rightarrow> response" where
  "get_item i s =
     (case select_by_id i s of
        None \<Rightarrow> Response 404 (Error ''Not found'')
      | Some row \<Rightarrow> Response 200 (Item_json row))"

text \<open>
  \<open>send_from_directory(UPLOAD_FOLDER, filename, as_attachment=True, download_name=...)\<close>:
  the content of the file under the name given for the download, or 404 when there is
  no such file. The names that \<open>upload\<close> stores are digits, \<open>_\<close> and a sanitized name: they
  hold no path separator, and the file is looked up in the folder under the name itself.
\<close>

definition send_from_directory :: "(string \<rightharpoonup> bytes) \<Rightarrow> string \<Rightarrow> string \<Rightarrow> response" where
  "send_from_directory dir name download_name =
     (case dir name of
        None \<Rightarrow> Response 404 Not_found_page
      | Some content \<Rightarrow> Response 200 (Attachment download_name content))"

definition download :: "nat \<Rightarrow> state \<Rightarrow> response" where
  "download i s =
     (case select_by_id i s of
        None \<Rightarrow> Response 404 Not_found_page
      | Some row \<Rightarrow>
          let original = (if original_name row \<noteq> [] then original_name row else filename row)
          in send_from_directory (uploads s) (filename row) original)"

subsection \<open>\<open>delete_item\<close>\<close>

text \<open>
  Lines 308 to 311: \<open>os.remove\<close> inside \<open>try ... except Exception: pass\<close>. The
  environment decides whether the removal of an existing file succeeds; a failure
  changes nothing and is not reported.
\<close>

definition remove_file :: "bool \<Rightarrow> string \<Rightarrow> state \<Rightarrow> state" where
  "remove_file remove_ok name s =
     (if remove_ok \<and> uploads s name \<noteq> None then s\<lparr>uploads := (uploads s)(name := None)\<rparr> else s)"

text \<open>Lines 312 and 313: \<open>DELETE FROM items WHERE id=?\<close> and the commit.\<close>

definition delete_row :: "nat \<Rightarrow> state \<Rightarrow> state" where
  "delete_row i s = s\<lparr>items := filter (\<lambda>r. item_id r \<noteq> i) (items s)\<rparr>"

definition delete_item :: "bool \<Rightarrow> nat \<Rightarrow> state \<Rightarrow> response \<times> state" where
  "delete_item remove_ok i s =
     (case select_by_id i s of
        None \<Rightarrow> (Response 404 (Error ''Not found''), s)
      | Some row \<Rightarrow>
          let s1 = remove_file remove_ok (filename row) s;
              s2 = delete_row i s1
          in (Response 200 Success, s2))"

text \<open>The states that a reader can see during \<open>delete_item\<close>, one after each write.\<close>

definition delete_item_trace :: "bool \<Rightarrow> nat \<Rightarrow> state \<Rightarrow> state list" where
  "delete_item_trace remove_ok i s =
     (case select_by_id i s of
        None \<Rightarrow> []
      | Some row \<Rightarrow>
          let s1 = remove_file remove_ok (filename row) s
          in [s1, delete_row i s1])"

section \<open>The words of the spec\<close>

text \<open>
  The extension of a file name is in the allow-list: the name has a dot, and the text
  after its last dot, in lower case, is one of the listed extensions.
\<close>

definition extension_allowed :: "string \<Rightarrow> bool" where
  "extension_allowed fname =
     (\<exists>stem ext. fname = stem @ ''.'' @ ext \<and> CHR ''.'' \<notin> set ext \<and>
        py_lower ext \<in> ALLOWED_EXT)"

text \<open>
  \<open>w\<close> is \<open>v\<close> with leading and trailing whitespace stripped: \<open>v\<close> is \<open>w\<close> between two
  runs of whitespace, and \<open>w\<close> neither begins nor ends with whitespace.
\<close>

definition stripped_of :: "string \<Rightarrow> string \<Rightarrow> bool" where
  "stripped_of v w =
     (\<exists>l t. v = l @ w @ t \<and> (\<forall>c \<in> set l. py_isspace c) \<and> (\<forall>c \<in> set t. py_isspace c) \<and>
            (w = [] \<or> (\<not> py_isspace (hd w) \<and> \<not> py_isspace (last w))))"

text \<open>
  What is assumed of the Unicode table: normalisation leaves an ASCII character as it is.
\<close>

definition ascii_kept :: "platform \<Rightarrow> bool" where
  "ascii_kept p = (\<forall>c. is_ascii c \<longrightarrow> nfkd_ascii p c = [c])"

text \<open>A query of whitespace only.\<close>

definition only_whitespace :: "string \<Rightarrow> bool" where
  "only_whitespace q = (\<forall>c \<in> set q. py_isspace c)"

text \<open>
  A field contains the query as a case-insensitive substring: the query in lower case
  occurs in the field in lower case.
\<close>

definition contains_ci :: "string \<Rightarrow> string \<Rightarrow> bool" where
  "contains_ci q field = sublist (py_lower q) (py_lower field)"

text \<open>No row is dangling: the file that a row names exists.\<close>

definition no_dangling_row :: "state \<Rightarrow> bool" where
  "no_dangling_row s = (\<forall>r \<in> set (items s). uploads s (filename r) \<noteq> None)"

section \<open>States over time\<close>

text \<open>The name under which \<open>f.save\<close> has written a complete file during one upload, if any.\<close>

definition written :: "platform \<Rightarrow> upload_env \<Rightarrow> upload_request \<Rightarrow> string set" where
  "written p env req =
     (case files_file req of
        None \<Rightarrow> {}
      | Some f \<Rightarrow>
          if f_filename f = [] \<or> \<not> allowed_file (f_filename f) \<or> save_result env \<noteq> Saved
          then {}
          else {stored_name p (now_stamp env) (f_filename f)})"

text \<open>
  \<open>reachable p s W\<close>: the service, started on an empty table, can be in state \<open>s\<close> after
  some uploads and deletes, each seen after any of its writes; \<open>W\<close> holds the names of the
  files written so far.
\<close>

inductive reachable :: "platform \<Rightarrow> state \<Rightarrow> string set \<Rightarrow> bool" for p :: platform where
  start: "items s = [] \<Longrightarrow> reachable p s {}"
| upload_step:
    "reachable p s W \<Longrightarrow> s' \<in> set (upload_trace p env req s) \<Longrightarrow>
     reachable p s' (W \<union> written p env req)"
| delete_step:
    "reachable p s W \<Longrightarrow> s' \<in> set (delete_item_trace remove_ok i s) \<Longrightarrow> reachable p s' W"

section \<open>Example inputs\<close>

text \<open>A POSIX platform; of the Unicode table, the ASCII part: other characters are dropped.\<close>

definition posix_platform :: platform where
  "posix_platform = \<lparr>os_nt = False, nfkd_ascii = (\<lambda>c. if is_ascii c then [c] else [])\<rparr>"

text \<open>The state after \<open>init_db()\<close> on a new database, with an empty upload folder.\<close>

definition empty_state :: state where
  "empty_state = \<lparr>items = [], sqlite_sequence = 0, uploads = Map.empty\<rparr>"

text \<open>A clock reading, and an upload at that time whose write succeeds.\<close>

definition example_time :: datetime where
  "example_time =
     \<lparr>year = 2024, month = 1, day = 2, hour = 3, minute = 4, second = 5, microsecond = 7\<rparr>"

definition example_env :: upload_env where
  "example_env = \<lparr>now_stamp = example_time, now_row = example_time, save_result = Saved\<rparr>"

definition scan1_file :: file_storage where
  "scan1_file =
     \<lparr>f_filename = ''scan1.jpg'', f_mimetype = Some ''image/jpeg'', f_content = ''JFIF''\<rparr>"

definition scan1_request :: upload_request where
  "scan1_request =
     \<lparr>files_file = Some scan1_file, form_title = Some '' Palm leaf 1 '',
      form_description = None, form_tags = Some ''''\<rparr>"

text \<open>The state after the upload of \<open>scan1_request\<close> into \<open>empty_state\<close>.\<close>

definition scan1_state :: state where
  "scan1_state =
     \<lparr>items = [\<lparr>item_id = 1, filename = ''20240102030405000007_scan1.jpg'',
                 original_name = ''scan1.jpg'', mime = ''image/jpeg'', title = ''Palm leaf 1'',
                 description = '''', tags = '''', uploaded_at = ''2024-01-02T03:04:05.000007''\<rparr>],
      sqlite_sequence = 1,
      uploads = [''20240102030405000007_scan1.jpg'' \<mapsto> ''JFIF'']\<rparr>"

text \<open>An upload of a file with an extension that is not allowed.\<close>

definition malware_request :: upload_request where
  "malware_request =
     \<lparr>files_file = Some \<lparr>f_filename = ''malware.exe'', f_mimetype = None, f_content = ''MZ''\<rparr>,
      form_title = None, form_description = None, form_tags = None\<rparr>"

text \<open>A second upload under the same file name with other content, and a later clock.\<close>

definition scan1_again_file :: file_storage where
  "scan1_again_file =
     \<lparr>f_filename = ''scan1.jpg'', f_mimetype = Some ''image/jpeg'', f_content = ''OTHER''\<rparr>"

definition scan1_again_request :: upload_request where
  "scan1_again_request =
     \<lparr>files_file = Some scan1_again_file, form_title = Some ''Palm leaf 2'',
      form_description = None, form_tags = None\<rparr>"

definition later_time :: datetime where
  "later_time = example_time\<lparr>microsecond := 8\<rparr>"

definition later_env :: upload_env where
  "later_env = \<lparr>now_stamp = later_time, now_row = later_time, save_result = Saved\<rparr>"

text \<open>
  The state after \<open>scan1_request\<close> and then \<open>scan1_again_request\<close>, the second at the later
  clock reading (\<open>later_state\<close>) or at the same clock reading (\<open>collided_state\<close>).
\<close>

definition later_state :: state where
  "later_state =
     \<lparr>items = [\<lparr>item_id = 1, filename = ''20240102030405000007_scan1.jpg'',
                 original_name = ''scan1.jpg'', mime = ''image/jpeg'', title = ''Palm leaf 1'',
                 description = '''', tags = '''', uploaded_at = ''2024-01-02T03:04:05.000007''\<rparr>,
               \<lparr>item_id = 2, filename = ''20240102030405000008_scan1.jpg'',
                 original_name = ''scan1.jpg'', mime = ''image/jpeg'', title = ''Palm leaf 2'',
                 description = '''', tags = '''', uploaded_at = ''2024-01-02T03:04:05.000008''\<rparr>],
      sqlite_sequence = 2,
      uploads = [''20240102030405000007_scan1.jpg'' \<mapsto> ''JFIF'',
                 ''20240102030405000008_scan1.jpg'' \<mapsto> ''OTHER'']\<rparr>"

definition collided_state :: state where
  "collided_state =
     \<lparr>items = [\<lparr>item_id = 1, filename = ''20240102030405000007_scan1.jpg'',
                 original_name = ''scan1.jpg'', mime = ''image/jpeg'', title = ''Palm leaf 1'',
                 description = '''', tags = '''', uploaded_at = ''2024-01-02T03:04:05.000007''\<rparr>,
               \<lparr>item_id = 2, filename = ''20240102030405000007_scan1.jpg'',
                 original_name = ''scan1.jpg'', mime = ''image/jpeg'', title = ''Palm leaf 2'',
                 description = '''', tags = '''', uploaded_at = ''2024-01-02T03:04:05.000007''\<rparr>],
      sqlite_sequence = 2,
      uploads = [''20240102030405000007_scan1.jpg'' \<mapsto> ''OTHER'']\<rparr>"

text \<open>The clock of \<open>example_env\<close> with a write that fails and leaves no file.\<close>

definition failing_env :: upload_env where
  "failing_env = example_env\<lparr>save_result := Save_failed None\<rparr>"

text \<open>Two items for the search: one titled \<open>abc\<close>, a later one titled \<open>a_c\<close>.\<close>

definition abc_item :: item where
  "abc_item =
     \<lparr>item_id = 1, filename = ''20240102030405000007_one.txt'', original_name = ''one.txt'',
      mime = ''text/plain'', title = ''abc'', description = ''first'', tags = ''x,y'',
      uploaded_at = ''2024-01-02T03:04:05.000007''\<rparr>"

definition a_c_item :: item where
  "a_c_item =
     \<lparr>item_id = 2, filename = ''20240102030405000008_two.txt'', original_name = ''two.txt'',
      mime = ''text/plain'', title = ''a_c'', description = ''second'', tags = ''x,y'',
      uploaded_at = ''2024-01-02T03:04:05.000008''\<rparr>"

definition search_state :: state where
  "search_state =
     \<lparr>items = [abc_item, a_c_item], sqlite_sequence = 2,
      uploads = [''20240102030405000007_one.txt'' \<mapsto> ''one'',
                 ''20240102030405000008_two.txt'' \<mapsto> ''two'']\<rparr>"

section \<open>Facts about the library functions\<close>

lemma zpad_numeral:
  "zpad (numeral k) n = zpad (pred_numeral k) (n div 10) @ [''0123456789'' ! (n mod 10)]"
  using zpad.simps(2) [of "pred_numeral k" n] by (simp only: numeral_eq_Suc)

lemma length_zpad [simp]: "length (zpad w n) = w"
  by (induction w arbitrary: n) auto

lemma length_strftime_stamp: "length (strftime_stamp t) = 20"
  by (simp add: strftime_stamp_def)

lemmas char_eval = char_of_def bit_iff_odd is_ascii_def is_upper_ascii_def is_lower_ascii_def
  is_digit_def is_alnum_ascii_def py_isspace_def py_lower_char_def sql_lower_char_def
  ascii_upper_char_def filename_char_ok_def

lemmas secure_filename_eval = secure_filename_def path_seps_def py_split_def strip_chars_def
  windows_device_files_def posix_platform_def

section \<open>Facts about the handlers\<close>

lemma foldr_max_ge: "r \<in> set rows \<Longrightarrow> item_id r \<le> foldr max (map item_id rows) 0"
  by (induction rows) (auto simp: max_def)

lemma item_id_less_next_rowid: "r \<in> set (items s) \<Longrightarrow> item_id r < next_rowid s"
  using foldr_max_ge [of r "items s"] by (simp add: next_rowid_def)

lemma find_append_fresh:
  "\<forall>r \<in> set rows. \<not> P r \<Longrightarrow> P x \<Longrightarrow> find P (rows @ x # rest) = Some x"
  by (induction rows) auto

lemma save_file_items [simp]: "items (save_file out name content s) = items s"
  by (simp add: save_file_def split: save_outcome.splits option.splits)

lemma save_file_sequence [simp]:
  "sqlite_sequence (save_file out name content s) = sqlite_sequence s"
  by (simp add: save_file_def split: save_outcome.splits option.splits)

lemma save_file_Saved [simp]:
  "uploads (save_file Saved name content s) = (uploads s)(name \<mapsto> content)"
  by (simp add: save_file_def)

lemma next_rowid_save_file [simp]: "next_rowid (save_file out name content s) = next_rowid s"
  by (simp add: next_rowid_def)

lemma next_rowid_uploads_update [simp]: "next_rowid (s\<lparr>uploads := u\<rparr>) = next_rowid s"
  by (simp add: next_rowid_def)

lemma upload_accepted:
  assumes "files_file req = Some f" "f_filename f \<noteq> []" "allowed_file (f_filename f)"
    and "save_result env = Saved"
  shows "upload p env req s =
     (Response 201 (Success_id (next_rowid s)),
      s\<lparr>uploads := (uploads s)(stored_name p (now_stamp env) (f_filename f) \<mapsto> f_content f),
        items := items s @ [(upload_row p env req f)\<lparr>item_id := next_rowid s\<rparr>],
        sqlite_sequence := next_rowid s\<rparr>)"
  using assms
  by (simp add: upload_def upload_saved_def insert_item_def Let_def save_file_def)

lemma upload_created_iff:
  "fst (upload p env req s) = Response 201 body \<longleftrightarrow>
     (\<exists>f. files_file req = Some f \<and> f_filename f \<noteq> [] \<and> allowed_file (f_filename f) \<and>
          save_result env = Saved \<and> body = Success_id (next_rowid s))"
  by (auto simp: upload_def upload_saved_def insert_item_def Let_def split: option.splits)

lemma upload_final_state: "snd (upload p env req s) = last (s # upload_trace p env req s)"
  by (simp add: upload_def upload_trace_def Let_def split: option.split prod.split)

lemma delete_item_final_state:
  "snd (delete_item remove_ok i s) = last (s # delete_item_trace remove_ok i s)"
  by (simp add: delete_item_def delete_item_trace_def Let_def split: option.split)

lemma select_by_id_new:
  "select_by_id (next_rowid s)
     (s\<lparr>uploads := u, items := items s @ [row\<lparr>item_id := next_rowid s\<rparr>], sqlite_sequence := n\<rparr>)
     = Some (row\<lparr>item_id := next_rowid s\<rparr>)"
proof -
  have "\<forall>r \<in> set (items s). \<not> item_id r = next_rowid s"
    using item_id_less_next_rowid by fastforce
  then show ?thesis
    by (simp add: select_by_id_def find_append_fresh)
qed

section \<open>The example upload\<close>

lemma allowed_scan1: "allowed_file ''scan1.jpg''"
  by (simp add: allowed_file_def py_lower_def ALLOWED_EXT_def char_eval)

lemma secure_scan1: "secure_filename posix_platform ''scan1.jpg'' = ''scan1.jpg''"
  by (simp add: secure_filename_eval char_eval)

lemma upload_scan1:
  "upload posix_platform example_env scan1_request empty_state =
     (Response 201 (Success_id 1), scan1_state)"
proof -
  have "upload posix_platform example_env scan1_request empty_state =
     (Response 201 (Success_id (next_rowid empty_state)),
      empty_state\<lparr>uploads := (uploads empty_state)
          (stored_name posix_platform (now_stamp example_env) (f_filename scan1_file)
             \<mapsto> f_content scan1_file),
        items := items empty_state @
          [(upload_row posix_platform example_env scan1_request scan1_file)
             \<lparr>item_id := next_rowid empty_state\<rparr>],
        sqlite_sequence := next_rowid empty_state\<rparr>)"
    by (rule upload_accepted)
      (simp_all add: scan1_request_def scan1_file_def allowed_scan1 example_env_def)
  then show ?thesis
    by (simp add: empty_state_def next_rowid_def upload_row_def stored_name_def secure_scan1
        example_env_def strftime_stamp_def scan1_request_def scan1_file_def or_empty_def
        py_strip_def py_isspace_def isoformat_def example_time_def zpad_numeral scan1_state_def)
qed

section \<open>The name of the stored file\<close>

text \<open>
  Claim C4, as amended. The spec gives the stored name as the timestamp immediately
  followed by the sanitized original name. In the code an underscore stands between the
  two: after a successful upload, the row found under the returned id has as
  \<open>filename\<close> the 20 digits of the UTC time of line 240 (year, month, day, hour, minute,
  second, microsecond), then \<open>_\<close>, then \<open>secure_filename\<close> of the submitted name.
\<close>

theorem upload_stored_name:
  assumes "upload p env req s = (Response 201 (Success_id i), s')"
  shows "\<exists>f row. files_file req = Some f \<and> select_by_id i s' = Some row \<and>
           filename row =
             strftime_stamp (now_stamp env) @ ''_'' @ secure_filename p (f_filename f) \<and>
           length (strftime_stamp (now_stamp env)) = 20"
proof -
  from assms have "fst (upload p env req s) = Response 201 (Success_id i)" by simp
  then obtain f where f: "files_file req = Some f" "f_filename f \<noteq> []"
      "allowed_file (f_filename f)" "save_result env = Saved" and i: "i = next_rowid s"
    unfolding upload_created_iff by auto
  from upload_accepted [OF f, of p s] assms
  have s': "s' = s\<lparr>uploads := (uploads s)
          (stored_name p (now_stamp env) (f_filename f) \<mapsto> f_content f),
        items := items s @ [(upload_row p env req f)\<lparr>item_id := next_rowid s\<rparr>],
        sqlite_sequence := next_rowid s\<rparr>"
    by simp
  have "select_by_id i s' = Some ((upload_row p env req f)\<lparr>item_id := next_rowid s\<rparr>)"
    unfolding s' i by (rule select_by_id_new)
  moreover have "filename ((upload_row p env req f)\<lparr>item_id := next_rowid s\<rparr>) =
      strftime_stamp (now_stamp env) @ ''_'' @ secure_filename p (f_filename f)"
    by (simp add: upload_row_def stored_name_def)
  ultimately show ?thesis
    using f(1) by (simp add: length_strftime_stamp)
qed

theorem upload_stored_name_witness:
  "upload posix_platform example_env scan1_request empty_state =
     (Response 201 (Success_id 1), scan1_state) \<and>
   (\<exists>f row. files_file scan1_request = Some f \<and> select_by_id 1 scan1_state = Some row \<and>
      filename row =
        strftime_stamp (now_stamp example_env) @ ''_'' @
        secure_filename posix_platform (f_filename f) \<and>
      length (strftime_stamp (now_stamp example_env)) = 20)"
  using upload_scan1 upload_stored_name [OF upload_scan1] by simp

text \<open>
  Claim C4 as the spec states it fails: for the example upload the stored name is
  \<open>20240102030405000007_scan1.jpg\<close>, and the timestamp immediately followed by the
  sanitized name is \<open>20240102030405000007scan1.jpg\<close>.
\<close>

theorem stored_name_plain_concatenation_counterexample:
  "fst (upload posix_platform example_env scan1_request empty_state) =
     Response 201 (Success_id 1) \<and>
   map filename (items (snd (upload posix_platform example_env scan1_request empty_state))) =
     [''20240102030405000007_scan1.jpg''] \<and>
   strftime_stamp (now_stamp example_env) @ secure_filename posix_platform (f_filename scan1_file)
     = ''20240102030405000007scan1.jpg''"
proof -
  have "strftime_stamp (now_stamp example_env) @
      secure_filename posix_platform (f_filename scan1_file) = ''20240102030405000007scan1.jpg''"
    by (simp add: secure_scan1 scan1_file_def example_env_def strftime_stamp_def
        example_time_def zpad_numeral)
  then show ?thesis
    by (simp add: upload_scan1 scan1_state_def)
qed

section \<open>Rejected uploads\<close>

lemma rsplit_dot:
  assumes "CHR ''.'' \<in> set fname"
  shows "\<exists>stem. fname = stem @ ''.'' @ rev (takeWhile (\<lambda>c. c \<noteq> CHR ''.'') (rev fname))"
proof -
  let ?P = "\<lambda>c. c \<noteq> CHR ''.''"
  from assms have "dropWhile ?P (rev fname) \<noteq> []"
    by simp
  then obtain x xs where d: "dropWhile ?P (rev fname) = x # xs"
    by (cases "dropWhile ?P (rev fname)") auto
  with hd_dropWhile [of ?P "rev fname"] have "x = CHR ''.''" by auto
  have "rev fname = takeWhile ?P (rev fname) @ dropWhile ?P (rev fname)" by simp
  then have "rev (rev fname) = rev (takeWhile ?P (rev fname) @ CHR ''.'' # xs)"
    using d \<open>x = CHR ''.''\<close> by simp
  then have "fname = rev xs @ ''.'' @ rev (takeWhile ?P (rev fname))" by simp
  then show ?thesis ..
qed

lemma rsplit_dot_unique:
  assumes "CHR ''.'' \<notin> set ext"
  shows "rev (takeWhile (\<lambda>c. c \<noteq> CHR ''.'') (rev (stem @ ''.'' @ ext))) = ext"
proof -
  have "takeWhile (\<lambda>c. c \<noteq> CHR ''.'') (rev ext @ CHR ''.'' # rev stem) = rev ext"
    using assms by (intro takeWhile_tail [THEN trans]) auto
  then show ?thesis by simp
qed

lemma allowed_file_iff: "allowed_file fname \<longleftrightarrow> extension_allowed fname"
proof
  assume a: "allowed_file fname"
  then obtain stem where
    "fname = stem @ ''.'' @ rev (takeWhile (\<lambda>c. c \<noteq> CHR ''.'') (rev fname))"
    using rsplit_dot by (auto simp: allowed_file_def)
  moreover have "CHR ''.'' \<notin> set (rev (takeWhile (\<lambda>c. c \<noteq> CHR ''.'') (rev fname)))"
    by (auto dest: set_takeWhileD)
  ultimately show "extension_allowed fname"
    using a unfolding extension_allowed_def allowed_file_def by blast
next
  assume "extension_allowed fname"
  then obtain stem ext where "fname = stem @ ''.'' @ ext" "CHR ''.'' \<notin> set ext"
      "py_lower ext \<in> ALLOWED_EXT"
    unfolding extension_allowed_def by blast
  then show "allowed_file fname"
    using rsplit_dot_unique [of ext stem] by (simp add: allowed_file_def)
qed

lemma not_allowed_malware: "\<not> allowed_file ''malware.exe''"
  by (simp add: allowed_file_def py_lower_def ALLOWED_EXT_def char_eval)

text \<open>
  Claim C6. An upload request without a file part, with an empty file name, or with a
  file name whose extension is not in the allow-list is answered with status 400 and an
  error message; the state is the one before the request, and the handler has made no
  write on the way (no row, no file).
\<close>

theorem upload_rejected:
  assumes "files_file req = None \<or>
           (\<exists>f. files_file req = Some f \<and>
                (f_filename f = [] \<or> \<not> extension_allowed (f_filename f)))"
  shows "(\<exists>msg. msg \<noteq> [] \<and> upload p env req s = (Response 400 (Error msg), s)) \<and>
         upload_trace p env req s = []"
  using assms by (auto simp: upload_def upload_trace_def allowed_file_iff)

theorem upload_rejected_witness:
  "\<not> extension_allowed ''malware.exe'' \<and>
   (\<exists>msg. msg \<noteq> [] \<and>
      upload posix_platform example_env malware_request scan1_state =
        (Response 400 (Error msg), scan1_state)) \<and>
   upload_trace posix_platform example_env malware_request scan1_state = []"
proof -
  have n: "\<not> extension_allowed ''malware.exe''"
    using not_allowed_malware by (simp add: allowed_file_iff)
  then have "files_file malware_request = None \<or>
      (\<exists>f. files_file malware_request = Some f \<and>
           (f_filename f = [] \<or> \<not> extension_allowed (f_filename f)))"
    by (simp add: malware_request_def)
  from upload_rejected [OF this] n show ?thesis by simp
qed

section \<open>Deleting an item\<close>


lemma remove_file_items [simp]: "items (remove_file ok name s) = items s"
  by (simp add: remove_file_def)

lemma remove_file_uploads:
  "uploads (remove_file ok name s) = (if ok then (uploads s)(name := None) else uploads s)"
  by (auto simp: remove_file_def)

lemma delete_row_items [simp]: "items (delete_row i s) = filter (\<lambda>r. item_id r \<noteq> i) (items s)"
  by (simp add: delete_row_def)

lemma delete_row_uploads [simp]: "uploads (delete_row i s) = uploads s"
  by (simp add: delete_row_def)

lemma delete_item_found:
  assumes "select_by_id i s = Some row"
  shows "delete_item ok i s = (Response 200 Success, delete_row i (remove_file ok (filename row) s))"
  using assms by (simp add: delete_item_def)



lemma select_scan1: "select_by_id 1 scan1_state = Some (hd (items scan1_state))"
  by (simp add: select_by_id_def scan1_state_def)


section \<open>Listing with a blank query\<close>

lemma py_strip_Nil: "py_strip [] = []"
  by (simp add: py_strip_def)

lemma py_strip_whitespace: "only_whitespace q \<Longrightarrow> py_strip q = []"
proof -
  assume "only_whitespace q"
  then have "\<forall>c \<in> set q. py_isspace c" by (simp add: only_whitespace_def)
  then have "dropWhile py_isspace q = []" by simp
  then show ?thesis by (simp only: py_strip_def rev.simps dropWhile.simps)
qed

text \<open>
  Claim C9. A query that consists of whitespace only (also the empty one) gives the
  answer of a request without a query: all rows, ordered by \<open>uploaded_at\<close> descending.
\<close>

theorem list_items_whitespace_query:
  assumes "only_whitespace q"
  shows "list_items (Some q) s = list_items None s \<and>
         list_items (Some q) s = Response 200 (Item_list (order_by_uploaded_at_desc (items s)))"
  using assms
  by (simp add: list_items_def py_strip_whitespace py_strip_Nil py_lower_def or_empty_def)

theorem list_items_whitespace_query_witness:
  "only_whitespace [CHR '' '', CHR 0x09, CHR '' ''] \<and>
   list_items (Some [CHR '' '', CHR 0x09, CHR '' '']) scan1_state = list_items None scan1_state \<and>
   list_items (Some [CHR '' '', CHR 0x09, CHR '' '']) scan1_state =
     Response 200 (Item_list (items scan1_state))"
proof -
  have w: "only_whitespace [CHR '' '', CHR 0x09, CHR '' '']"
    by (simp add: only_whitespace_def py_isspace_def)
  have o: "order_by_uploaded_at_desc (items scan1_state) = items scan1_state"
    by (simp add: order_by_uploaded_at_desc_def scan1_state_def)
  have r: "list_items (Some [CHR '' '', CHR 0x09, CHR '' '']) scan1_state =
        list_items None scan1_state \<and>
      list_items (Some [CHR '' '', CHR 0x09, CHR '' '']) scan1_state =
        Response 200 (Item_list (order_by_uploaded_at_desc (items scan1_state)))"
    by (rule list_items_whitespace_query [OF w])
  from w r [unfolded o] show ?thesis
    by (rule conjI)
qed

section \<open>Stripping\<close>

lemma py_strip_stripped_of: "stripped_of v (py_strip v)"
proof -
  let ?P = py_isspace
  let ?l = "takeWhile ?P v"
  let ?b = "dropWhile ?P v"
  let ?t = "rev (takeWhile ?P (rev ?b))"
  let ?w = "rev (dropWhile ?P (rev ?b))"
  have w: "py_strip v = ?w" by (simp add: py_strip_def)
  have b: "?b = ?w @ ?t"
    by (metis rev_append rev_rev_ident takeWhile_dropWhile_id)
  have "v = ?l @ ?b" by simp
  with b have v: "v = ?l @ ?w @ ?t" by simp
  have l: "\<forall>c \<in> set ?l. ?P c" by (auto dest: set_takeWhileD)
  have t: "\<forall>c \<in> set ?t. ?P c" by (auto dest: set_takeWhileD)
  have e: "\<not> ?P (hd ?w) \<and> \<not> ?P (last ?w)" if ne: "?w \<noteq> []"
  proof
    from ne have "dropWhile ?P (rev ?b) \<noteq> []" by simp
    then have "\<not> ?P (hd (dropWhile ?P (rev ?b)))" by (rule hd_dropWhile)
    then show "\<not> ?P (last ?w)" using ne by (simp add: last_rev)
    from ne b have "?b \<noteq> []" by (metis append_is_Nil_conv)
    then have "\<not> ?P (hd ?b)" by (rule hd_dropWhile)
    moreover from b ne have "hd ?b = hd ?w" by (metis hd_append2)
    ultimately show "\<not> ?P (hd ?w)" by simp
  qed
  show ?thesis
    unfolding stripped_of_def w using v l t e by blast
qed

lemma stripped_of_unique:
  assumes "stripped_of v w"
  shows "w = py_strip v"
proof -
  from assms obtain l t where v: "v = l @ w @ t" and l: "\<forall>c \<in> set l. py_isspace c"
    and t: "\<forall>c \<in> set t. py_isspace c"
    and w: "w = [] \<or> (\<not> py_isspace (hd w) \<and> \<not> py_isspace (last w))"
    unfolding stripped_of_def by blast
  show ?thesis
  proof (cases "w = []")
    case True
    with v l t have "\<forall>c \<in> set v. py_isspace c" by auto
    then have "dropWhile py_isspace v = []" by simp
    then have "py_strip v = []" by (simp only: py_strip_def rev.simps dropWhile.simps)
    with True show ?thesis by simp
  next
    case False
    with w have h: "\<not> py_isspace (hd w)" and la: "\<not> py_isspace (last w)" by auto
    from False obtain x xs where wx: "w = x # xs" by (cases w) auto
    with h have "\<not> py_isspace x" by simp
    then have d1: "dropWhile py_isspace v = w @ t"
      unfolding v using l by (simp add: dropWhile_append wx)
    from False obtain ys y where wy: "w = ys @ [y]" by (cases w rule: rev_cases) auto
    with la have "\<not> py_isspace y" by simp
    then have "dropWhile py_isspace (rev t @ rev w) = rev w"
      using t by (simp add: dropWhile_append wy)
    then show ?thesis
      by (simp add: py_strip_def d1)
  qed
qed

section \<open>The stored metadata\<close>

lemma upload_created_cases:
  assumes "upload p env req s = (Response 201 (Success_id i), s')"
  obtains f where "files_file req = Some f" "f_filename f \<noteq> []" "allowed_file (f_filename f)"
    "save_result env = Saved" "i = next_rowid s"
    "s' = s\<lparr>uploads := (uploads s)(stored_name p (now_stamp env) (f_filename f) \<mapsto> f_content f),
        items := items s @ [(upload_row p env req f)\<lparr>item_id := i\<rparr>],
        sqlite_sequence := i\<rparr>"
    "select_by_id i s' = Some ((upload_row p env req f)\<lparr>item_id := i\<rparr>)"
proof -
  from assms have "fst (upload p env req s) = Response 201 (Success_id i)" by simp
  then obtain f where f: "files_file req = Some f" "f_filename f \<noteq> []"
      "allowed_file (f_filename f)" "save_result env = Saved" and i: "i = next_rowid s"
    unfolding upload_created_iff by auto
  from upload_accepted [OF f, of p s] assms
  have s': "s' = s\<lparr>uploads := (uploads s)
          (stored_name p (now_stamp env) (f_filename f) \<mapsto> f_content f),
        items := items s @ [(upload_row p env req f)\<lparr>item_id := i\<rparr>],
        sqlite_sequence := i\<rparr>"
    by (simp add: i)
  have "select_by_id i s' = Some ((upload_row p env req f)\<lparr>item_id := i\<rparr>)"
    unfolding s' unfolding i by (rule select_by_id_new)
  with f i s' show thesis by (rule that)
qed

text \<open>
  Claim C10. After a successful upload, the row read back under the returned id has as
  title, description and tags the submitted values with leading and trailing whitespace
  stripped, each empty when the form field is absent; its mime is the mimetype of the
  file part, or empty when there is none.
\<close>

theorem upload_stored_metadata:
  assumes "upload p env req s = (Response 201 (Success_id i), s')"
  shows "\<exists>f row. files_file req = Some f \<and> get_item i s' = Response 200 (Item_json row) \<and>
           (case form_title req of None \<Rightarrow> title row = [] | Some v \<Rightarrow> stripped_of v (title row)) \<and>
           (case form_description req of
              None \<Rightarrow> description row = [] | Some v \<Rightarrow> stripped_of v (description row)) \<and>
           (case form_tags req of None \<Rightarrow> tags row = [] | Some v \<Rightarrow> stripped_of v (tags row)) \<and>
           (case f_mimetype f of None \<Rightarrow> mime row = [] | Some m \<Rightarrow> mime row = m)"
proof -
  from assms obtain f where f: "files_file req = Some f"
    and sel: "select_by_id i s' = Some ((upload_row p env req f)\<lparr>item_id := i\<rparr>)"
    by (rule upload_created_cases)
  let ?row = "(upload_row p env req f)\<lparr>item_id := i\<rparr>"
  have "get_item i s' = Response 200 (Item_json ?row)"
    by (simp add: get_item_def sel)
  moreover have "case form_title req of None \<Rightarrow> title ?row = [] | Some v \<Rightarrow> stripped_of v (title ?row)"
    by (simp add: upload_row_def or_empty_def py_strip_Nil py_strip_stripped_of split: option.split)
  moreover have "case form_description req of
      None \<Rightarrow> description ?row = [] | Some v \<Rightarrow> stripped_of v (description ?row)"
    by (simp add: upload_row_def or_empty_def py_strip_Nil py_strip_stripped_of split: option.split)
  moreover have "case form_tags req of None \<Rightarrow> tags ?row = [] | Some v \<Rightarrow> stripped_of v (tags ?row)"
    by (simp add: upload_row_def or_empty_def py_strip_Nil py_strip_stripped_of split: option.split)
  moreover have "case f_mimetype f of None \<Rightarrow> mime ?row = [] | Some m \<Rightarrow> mime ?row = m"
    by (simp add: upload_row_def or_empty_def split: option.split)
  ultimately show ?thesis using f by blast
qed

theorem upload_stored_metadata_witness:
  "upload posix_platform example_env scan1_request empty_state =
     (Response 201 (Success_id 1), scan1_state) \<and>
   files_file scan1_request = Some scan1_file \<and>
   get_item 1 scan1_state = Response 200 (Item_json (hd (items scan1_state))) \<and>
   stripped_of '' Palm leaf 1 '' (title (hd (items scan1_state))) \<and>
   description (hd (items scan1_state)) = [] \<and>
   stripped_of [] (tags (hd (items scan1_state))) \<and>
   mime (hd (items scan1_state)) = ''image/jpeg''"
proof -
  from upload_stored_metadata [OF upload_scan1]
  obtain f row where "files_file scan1_request = Some f"
    and "get_item 1 scan1_state = Response 200 (Item_json row)"
    and "case form_title scan1_request of
           None \<Rightarrow> title row = [] | Some v \<Rightarrow> stripped_of v (title row)"
    and "case form_description scan1_request of
           None \<Rightarrow> description row = [] | Some v \<Rightarrow> stripped_of v (description row)"
    and "case form_tags scan1_request of
           None \<Rightarrow> tags row = [] | Some v \<Rightarrow> stripped_of v (tags row)"
    and "case f_mimetype f of None \<Rightarrow> mime row = [] | Some m \<Rightarrow> mime row = m"
    by blast
  moreover have "get_item 1 scan1_state = Response 200 (Item_json (hd (items scan1_state)))"
    by (simp only: get_item_def select_scan1 option.case)
  ultimately show ?thesis
    using upload_scan1 by (auto simp: scan1_request_def scan1_file_def)
qed

section \<open>Upload, then download\<close>

lemma alnum_is_ascii: "is_alnum_ascii c \<Longrightarrow> is_ascii c"
  by (auto simp: is_alnum_ascii_def is_upper_ascii_def is_lower_ascii_def is_digit_def
      is_ascii_def less_eq_char_def)

lemma alnum_not_space: "is_alnum_ascii c \<Longrightarrow> \<not> py_isspace c"
  by (auto simp: is_alnum_ascii_def is_upper_ascii_def is_lower_ascii_def is_digit_def
      py_isspace_def less_eq_char_def)

lemma alnum_not_sep: "is_alnum_ascii c \<Longrightarrow> c \<notin> path_seps p"
  by (auto simp: is_alnum_ascii_def is_upper_ascii_def is_lower_ascii_def is_digit_def
      path_seps_def)

lemma alnum_not_stripped: "is_alnum_ascii c \<Longrightarrow> c \<notin> {CHR ''.'', CHR ''_''}"
  by (auto simp: is_alnum_ascii_def is_upper_ascii_def is_lower_ascii_def is_digit_def)

lemma alnum_of_lower: "is_alnum_ascii (py_lower_char c) \<Longrightarrow> is_alnum_ascii c"
  by (auto simp: is_alnum_ascii_def is_upper_ascii_def is_lower_ascii_def is_digit_def
      py_lower_char_def less_eq_char_def Let_def split: if_splits)

lemma allowed_ext_alnum: "x \<in> ALLOWED_EXT \<Longrightarrow> x \<noteq> [] \<and> (\<forall>c \<in> set x. is_alnum_ascii c)"
  by (auto simp: ALLOWED_EXT_def is_alnum_ascii_def is_upper_ascii_def is_lower_ascii_def
      is_digit_def)

lemma allowed_file_has_alnum:
  assumes "allowed_file fname"
  shows "\<exists>c \<in> set fname. is_alnum_ascii c"
proof -
  let ?ext = "rev (takeWhile (\<lambda>c. c \<noteq> CHR ''.'') (rev fname))"
  from assms have "py_lower ?ext \<in> ALLOWED_EXT" by (simp add: allowed_file_def)
  then have "py_lower ?ext \<noteq> []" and a: "\<forall>c \<in> set (py_lower ?ext). is_alnum_ascii c"
    using allowed_ext_alnum by blast+
  then obtain c where c: "c \<in> set ?ext" by (cases ?ext) (auto simp: py_lower_def)
  with a have "is_alnum_ascii (py_lower_char c)" by (simp add: py_lower_def)
  then have "is_alnum_ascii c" by (rule alnum_of_lower)
  moreover from c have "c \<in> set fname" by (auto dest: set_takeWhileD)
  ultimately show ?thesis ..
qed

lemma concat_split_ws: "concat (split_ws cur s) = cur @ filter (\<lambda>c. \<not> py_isspace c) s"
  by (induction s arbitrary: cur) auto

lemma set_concat_subset_join: "set (concat xs) \<subseteq> set (join sep xs)"
  by (induction sep xs rule: join.induct) auto

lemma in_set_dropWhile: "x \<in> set xs \<Longrightarrow> \<not> P x \<Longrightarrow> x \<in> set (dropWhile P xs)"
  by (induction xs) auto

lemma in_set_strip_chars: "x \<in> set s \<Longrightarrow> x \<notin> cs \<Longrightarrow> x \<in> set (strip_chars cs s)"
  by (simp add: strip_chars_def in_set_dropWhile)

lemma secure_filename_nonempty:
  assumes "allowed_file fname" and ascii: "\<forall>c. is_ascii c \<longrightarrow> nfkd_ascii p c = [c]"
  shows "secure_filename p fname \<noteq> []"
proof -
  from assms(1) obtain c where c: "c \<in> set fname" and alnum: "is_alnum_ascii c"
    using allowed_file_has_alnum by blast
  define ascii_name where "ascii_name = concat (map (nfkd_ascii p) fname)"
  define spaced where "spaced = map (\<lambda>c. if c \<in> path_seps p then CHR '' '' else c) ascii_name"
  define joined where "joined = join ''_'' (py_split spaced)"
  define name where "name = strip_chars {CHR ''.'', CHR ''_''} (filter filename_char_ok joined)"
  from alnum ascii have "nfkd_ascii p c = [c]" by (simp add: alnum_is_ascii)
  with c have "c \<in> set ascii_name" unfolding ascii_name_def by force
  then have "(if c \<in> path_seps p then CHR '' '' else c) \<in> set spaced"
    unfolding spaced_def by (simp only: set_map) (rule imageI)
  then have "c \<in> set spaced" using alnum by (simp add: alnum_not_sep)
  then have "c \<in> set (concat (py_split spaced))"
    using alnum by (simp add: py_split_def concat_split_ws alnum_not_space)
  then have "c \<in> set joined"
    unfolding joined_def using set_concat_subset_join by blast
  then have "c \<in> set (filter filename_char_ok joined)"
    using alnum by (simp add: filename_char_ok_def)
  then have "c \<in> set name"
    unfolding name_def using alnum by (intro in_set_strip_chars alnum_not_stripped)
  then have "name \<noteq> []" by auto
  then show ?thesis
    unfolding secure_filename_def Let_def
    by (simp add: name_def joined_def spaced_def ascii_name_def)
qed

text \<open>
  Claim C1. After a successful upload, the download under the returned id answers 200
  with the bytes that were uploaded, as an attachment named by \<open>secure_filename\<close> of the
  submitted file name. The one assumption is on the Unicode table, which is not part of
  the program: normalisation leaves each ASCII character as it is.
\<close>

theorem upload_download_roundtrip:
  assumes "upload p env req s = (Response 201 (Success_id i), s')"
    and "ascii_kept p"
  shows "\<exists>f. files_file req = Some f \<and>
           download i s' =
             Response 200 (Attachment (secure_filename p (f_filename f)) (f_content f))"
proof -
  from assms(1) obtain f where f: "files_file req = Some f"
    and allowed: "allowed_file (f_filename f)"
    and s': "s' = s\<lparr>uploads := (uploads s)
          (stored_name p (now_stamp env) (f_filename f) \<mapsto> f_content f),
        items := items s @ [(upload_row p env req f)\<lparr>item_id := i\<rparr>],
        sqlite_sequence := i\<rparr>"
    and sel: "select_by_id i s' = Some ((upload_row p env req f)\<lparr>item_id := i\<rparr>)"
    by (rule upload_created_cases)
  from allowed assms(2) have ne: "secure_filename p (f_filename f) \<noteq> []"
    unfolding ascii_kept_def by (rule secure_filename_nonempty)
  have "uploads s' (stored_name p (now_stamp env) (f_filename f)) = Some (f_content f)"
    by (simp add: s')
  then have "download i s' =
      Response 200 (Attachment (secure_filename p (f_filename f)) (f_content f))"
    using ne by (simp add: download_def sel send_from_directory_def upload_row_def)
  with f show ?thesis by blast
qed

theorem upload_download_roundtrip_witness:
  "ascii_kept posix_platform \<and>
   upload posix_platform example_env scan1_request empty_state =
     (Response 201 (Success_id 1), scan1_state) \<and>
   download 1 scan1_state = Response 200 (Attachment ''scan1.jpg'' ''JFIF'')"
proof -
  have a: "ascii_kept posix_platform"
    by (simp add: ascii_kept_def posix_platform_def)
  from upload_download_roundtrip [OF upload_scan1 a]
  have "download 1 scan1_state = Response 200 (Attachment ''scan1.jpg'' ''JFIF'')"
    by (simp add: scan1_request_def scan1_file_def secure_scan1)
  with a upload_scan1 show ?thesis by (intro conjI)
qed

section \<open>Distinct stored names\<close>

lemma digit_inj:
  assumes "a < 10" "b < 10" "''0123456789'' ! a = ''0123456789'' ! b"
  shows "a = b"
proof -
  have "distinct ''0123456789''" by simp
  moreover have "a < length ''0123456789''" "b < length ''0123456789''"
    using assms by simp_all
  ultimately show ?thesis
    using assms(3) by (simp only: nth_eq_iff_index_eq)
qed

lemma zpad_inj: "n < 10 ^ w \<Longrightarrow> m < 10 ^ w \<Longrightarrow> zpad w n = zpad w m \<Longrightarrow> n = m"
proof (induction w arbitrary: n m)
  case 0
  then show ?case by simp
next
  case (Suc w)
  from Suc.prems(3) have z: "zpad w (n div 10) = zpad w (m div 10)"
    and d: "''0123456789'' ! (n mod 10) = ''0123456789'' ! (m mod 10)"
    by simp_all
  from Suc.prems(1,2) have "n div 10 < 10 ^ w" "m div 10 < 10 ^ w"
    by (simp_all add: less_mult_imp_div_less mult.commute)
  with z have "n div 10 = m div 10" by (rule Suc.IH [rotated 2])
  moreover have "n mod 10 = m mod 10"
    using d by (intro digit_inj) simp_all
  ultimately show ?case
    by (metis div_mult_mod_eq)
qed

lemma strftime_stamp_inj:
  assumes "valid_datetime t1" "valid_datetime t2" "strftime_stamp t1 = strftime_stamp t2"
  shows "t1 = t2"
proof -
  from assms(3) have z: "zpad 4 (year t1) = zpad 4 (year t2)"
    "zpad 2 (month t1) = zpad 2 (month t2)" "zpad 2 (day t1) = zpad 2 (day t2)"
    "zpad 2 (hour t1) = zpad 2 (hour t2)" "zpad 2 (minute t1) = zpad 2 (minute t2)"
    "zpad 2 (second t1) = zpad 2 (second t2)"
    "zpad 6 (microsecond t1) = zpad 6 (microsecond t2)"
    by (simp_all add: strftime_stamp_def)
  from assms(1,2) have "year t1 = year t2"
    by (intro zpad_inj [OF _ _ z(1)]) (simp_all add: valid_datetime_def)
  moreover from assms(1,2) have "month t1 = month t2"
    by (intro zpad_inj [OF _ _ z(2)]) (simp_all add: valid_datetime_def)
  moreover from assms(1,2) have "day t1 = day t2"
    by (intro zpad_inj [OF _ _ z(3)]) (simp_all add: valid_datetime_def)
  moreover from assms(1,2) have "hour t1 = hour t2"
    by (intro zpad_inj [OF _ _ z(4)]) (simp_all add: valid_datetime_def)
  moreover from assms(1,2) have "minute t1 = minute t2"
    by (intro zpad_inj [OF _ _ z(5)]) (simp_all add: valid_datetime_def)
  moreover from assms(1,2) have "second t1 = second t2"
    by (intro zpad_inj [OF _ _ z(6)]) (simp_all add: valid_datetime_def)
  moreover from assms(1,2) have "microsecond t1 = microsecond t2"
    by (intro zpad_inj [OF _ _ z(7)]) (simp_all add: valid_datetime_def)
  ultimately show ?thesis by simp
qed

lemma stored_name_inj:
  assumes "valid_datetime t1" "valid_datetime t2" "stored_name p t1 n1 = stored_name p t2 n2"
  shows "t1 = t2 \<and> secure_filename p n1 = secure_filename p n2"
proof -
  from assms(3) have "strftime_stamp t1 = strftime_stamp t2 \<and>
      secure_filename p n1 = secure_filename p n2"
    by (simp add: stored_name_def length_strftime_stamp)
  with assms(1,2) show ?thesis
    by (auto dest: strftime_stamp_inj)
qed

lemma find_append_found: "find P xs = Some x \<Longrightarrow> find P (xs @ ys) = Some x"
  by (induction xs) (auto split: if_splits)

lemma select_by_id_after_upload:
  assumes "upload p env req s = (Response 201 (Success_id i), s')"
    and "select_by_id j s = Some row"
  shows "select_by_id j s' = Some row"
proof -
  from assms(1) obtain f where
    "s' = s\<lparr>uploads := (uploads s)
          (stored_name p (now_stamp env) (f_filename f) \<mapsto> f_content f),
        items := items s @ [(upload_row p env req f)\<lparr>item_id := i\<rparr>],
        sqlite_sequence := i\<rparr>"
    by (rule upload_created_cases)
  with assms(2) show ?thesis
    by (simp add: select_by_id_def find_append_found)
qed

text \<open>
  Claim C5, as amended. The stored name depends on nothing but the clock reading of line
  240 and the sanitized file name, and on no earlier create or delete. Two successful
  creates, from any two states, whose clock readings differ at the resolution of a
  microsecond, or whose sanitized names differ, store their files under distinct names;
  when the second create follows the first, each id then downloads its own content.
\<close>

theorem uploads_with_distinct_names:
  assumes u1: "upload p env1 req1 s = (Response 201 (Success_id i1), s1)"
    and u2: "upload p env2 req2 sa = (Response 201 (Success_id i2), s2)"
    and v: "valid_datetime (now_stamp env1)" "valid_datetime (now_stamp env2)"
    and ne: "now_stamp env1 \<noteq> now_stamp env2 \<or>
             map_option (\<lambda>f. secure_filename p (f_filename f)) (files_file req1) \<noteq>
             map_option (\<lambda>f. secure_filename p (f_filename f)) (files_file req2)"
    and ascii: "ascii_kept p"
  shows "\<exists>f1 f2 row1 row2.
           files_file req1 = Some f1 \<and> files_file req2 = Some f2 \<and>
           select_by_id i1 s1 = Some row1 \<and> select_by_id i2 s2 = Some row2 \<and>
           filename row1 \<noteq> filename row2 \<and>
           (sa = s1 \<longrightarrow>
              download i1 s2 =
                Response 200 (Attachment (secure_filename p (f_filename f1)) (f_content f1)) \<and>
              download i2 s2 =
                Response 200 (Attachment (secure_filename p (f_filename f2)) (f_content f2)))"
proof -
  from u1 obtain f1 where f1: "files_file req1 = Some f1"
    and a1: "allowed_file (f_filename f1)"
    and s1: "s1 = s\<lparr>uploads := (uploads s)
          (stored_name p (now_stamp env1) (f_filename f1) \<mapsto> f_content f1),
        items := items s @ [(upload_row p env1 req1 f1)\<lparr>item_id := i1\<rparr>],
        sqlite_sequence := i1\<rparr>"
    and sel1: "select_by_id i1 s1 = Some ((upload_row p env1 req1 f1)\<lparr>item_id := i1\<rparr>)"
    by (rule upload_created_cases)
  from u2 obtain f2 where f2: "files_file req2 = Some f2"
    and a2: "allowed_file (f_filename f2)"
    and s2: "s2 = sa\<lparr>uploads := (uploads sa)
          (stored_name p (now_stamp env2) (f_filename f2) \<mapsto> f_content f2),
        items := items sa @ [(upload_row p env2 req2 f2)\<lparr>item_id := i2\<rparr>],
        sqlite_sequence := i2\<rparr>"
    and sel2: "select_by_id i2 s2 = Some ((upload_row p env2 req2 f2)\<lparr>item_id := i2\<rparr>)"
    by (rule upload_created_cases)
  let ?n1 = "stored_name p (now_stamp env1) (f_filename f1)"
  let ?n2 = "stored_name p (now_stamp env2) (f_filename f2)"
  from ne f1 f2 have "now_stamp env1 \<noteq> now_stamp env2 \<or>
      secure_filename p (f_filename f1) \<noteq> secure_filename p (f_filename f2)"
    by simp
  with v have names: "?n1 \<noteq> ?n2"
    using stored_name_inj by blast
  then have rows: "filename ((upload_row p env1 req1 f1)\<lparr>item_id := i1\<rparr>) \<noteq>
      filename ((upload_row p env2 req2 f2)\<lparr>item_id := i2\<rparr>)"
    by (simp add: upload_row_def)
  have d: "download i1 s2 =
        Response 200 (Attachment (secure_filename p (f_filename f1)) (f_content f1)) \<and>
      download i2 s2 =
        Response 200 (Attachment (secure_filename p (f_filename f2)) (f_content f2))"
    if sa: "sa = s1"
  proof
    have "uploads s2 ?n2 = Some (f_content f2)"
      by (simp add: s2)
    moreover from a2 ascii have "secure_filename p (f_filename f2) \<noteq> []"
      unfolding ascii_kept_def by (rule secure_filename_nonempty)
    ultimately show "download i2 s2 =
        Response 200 (Attachment (secure_filename p (f_filename f2)) (f_content f2))"
      by (simp add: download_def sel2 send_from_directory_def upload_row_def)
    from u2 sel1 have "select_by_id i1 s2 = Some ((upload_row p env1 req1 f1)\<lparr>item_id := i1\<rparr>)"
      unfolding sa by (rule select_by_id_after_upload)
    moreover have "uploads s2 ?n1 = Some (f_content f1)"
      using names by (simp add: s2 sa s1)
    moreover from a1 ascii have "secure_filename p (f_filename f1) \<noteq> []"
      unfolding ascii_kept_def by (rule secure_filename_nonempty)
    ultimately show "download i1 s2 =
        Response 200 (Attachment (secure_filename p (f_filename f1)) (f_content f1))"
      by (simp add: download_def send_from_directory_def upload_row_def)
  qed
  from f1 f2 sel1 sel2 rows d show ?thesis by blast
qed

lemma valid_example_time: "valid_datetime example_time"
  by (simp add: valid_datetime_def example_time_def)

lemma valid_later_time: "valid_datetime later_time"
  by (simp add: valid_datetime_def later_time_def example_time_def)

lemma next_rowid_scan1_state: "next_rowid scan1_state = 2"
  by (simp add: next_rowid_def scan1_state_def)

lemma upload_scan1_again:
  assumes "save_result env = Saved"
  shows "upload posix_platform env scan1_again_request scan1_state =
     (Response 201 (Success_id 2),
      scan1_state\<lparr>uploads := (uploads scan1_state)
          (stored_name posix_platform (now_stamp env) (f_filename scan1_again_file)
             \<mapsto> f_content scan1_again_file),
        items := items scan1_state @
          [(upload_row posix_platform env scan1_again_request scan1_again_file)
             \<lparr>item_id := 2\<rparr>],
        sqlite_sequence := 2\<rparr>)"
  unfolding next_rowid_scan1_state [symmetric]
  by (rule upload_accepted)
    (simp_all add: scan1_again_request_def scan1_again_file_def allowed_scan1 assms)

lemma upload_row_again_later:
  "(upload_row posix_platform later_env scan1_again_request scan1_again_file)\<lparr>item_id := 2\<rparr> =
     \<lparr>item_id = 2, filename = ''20240102030405000008_scan1.jpg'',
      original_name = ''scan1.jpg'', mime = ''image/jpeg'', title = ''Palm leaf 2'',
      description = '''', tags = '''', uploaded_at = ''2024-01-02T03:04:05.000008''\<rparr>"
  by (simp add: upload_row_def stored_name_def strftime_stamp_def secure_scan1
      scan1_again_file_def scan1_again_request_def or_empty_def py_strip_def py_isspace_def
      later_env_def later_time_def example_time_def isoformat_def zpad_numeral)

lemma upload_row_again_same:
  "(upload_row posix_platform example_env scan1_again_request scan1_again_file)\<lparr>item_id := 2\<rparr> =
     \<lparr>item_id = 2, filename = ''20240102030405000007_scan1.jpg'',
      original_name = ''scan1.jpg'', mime = ''image/jpeg'', title = ''Palm leaf 2'',
      description = '''', tags = '''', uploaded_at = ''2024-01-02T03:04:05.000007''\<rparr>"
  by (simp add: upload_row_def stored_name_def strftime_stamp_def secure_scan1
      scan1_again_file_def scan1_again_request_def or_empty_def py_strip_def py_isspace_def
      example_env_def example_time_def isoformat_def zpad_numeral)

lemma stored_name_again_later:
  "stored_name posix_platform (now_stamp later_env) (f_filename scan1_again_file) =
     ''20240102030405000008_scan1.jpg''"
  by (simp add: stored_name_def secure_scan1 later_env_def later_time_def example_time_def
      strftime_stamp_def zpad_numeral scan1_again_file_def)

lemma stored_name_again_same:
  "stored_name posix_platform (now_stamp example_env) (f_filename scan1_again_file) =
     ''20240102030405000007_scan1.jpg''"
  by (simp add: stored_name_def secure_scan1 example_env_def example_time_def
      strftime_stamp_def zpad_numeral scan1_again_file_def)

lemma upload_scan1_again_later:
  "upload posix_platform later_env scan1_again_request scan1_state =
     (Response 201 (Success_id 2), later_state)"
proof -
  have "save_result later_env = Saved" by (simp add: later_env_def)
  then show ?thesis
    unfolding upload_scan1_again [OF \<open>save_result later_env = Saved\<close>] upload_row_again_later stored_name_again_later
    by (simp add: scan1_again_file_def scan1_state_def later_state_def)
qed

lemma upload_scan1_again_same:
  "upload posix_platform example_env scan1_again_request scan1_state =
     (Response 201 (Success_id 2), collided_state)"
proof -
  have "save_result example_env = Saved" by (simp add: example_env_def)
  then show ?thesis
    unfolding upload_scan1_again [OF \<open>save_result example_env = Saved\<close>] upload_row_again_same stored_name_again_same
    by (simp add: scan1_again_file_def scan1_state_def collided_state_def)
qed

theorem uploads_with_distinct_names_witness:
  "valid_datetime (now_stamp example_env) \<and> valid_datetime (now_stamp later_env) \<and>
   now_stamp example_env \<noteq> now_stamp later_env \<and>
   ascii_kept posix_platform \<and>
   upload posix_platform example_env scan1_request empty_state =
     (Response 201 (Success_id 1), scan1_state) \<and>
   upload posix_platform later_env scan1_again_request scan1_state =
     (Response 201 (Success_id 2), later_state) \<and>
   map filename (items later_state) =
     [''20240102030405000007_scan1.jpg'', ''20240102030405000008_scan1.jpg''] \<and>
   download 1 later_state = Response 200 (Attachment ''scan1.jpg'' ''JFIF'') \<and>
   download 2 later_state = Response 200 (Attachment ''scan1.jpg'' ''OTHER'')"
proof -
  have v1: "valid_datetime (now_stamp example_env)"
    by (simp add: example_env_def valid_example_time)
  have v2: "valid_datetime (now_stamp later_env)"
    by (simp add: later_env_def valid_later_time)
  have ne: "now_stamp example_env \<noteq> now_stamp later_env"
    by (simp add: example_env_def later_env_def later_time_def example_time_def)
  then have ne': "now_stamp example_env \<noteq> now_stamp later_env \<or>
      map_option (\<lambda>f. secure_filename posix_platform (f_filename f)) (files_file scan1_request) \<noteq>
      map_option (\<lambda>f. secure_filename posix_platform (f_filename f))
        (files_file scan1_again_request)" ..
  have a: "ascii_kept posix_platform"
    by (simp add: ascii_kept_def posix_platform_def)
  from uploads_with_distinct_names [OF upload_scan1 upload_scan1_again_later v1 v2 ne' a]
  obtain f1 f2 where "files_file scan1_request = Some f1"
    and "files_file scan1_again_request = Some f2"
    and "download 1 later_state =
      Response 200 (Attachment (secure_filename posix_platform (f_filename f1)) (f_content f1))"
    and "download 2 later_state =
      Response 200 (Attachment (secure_filename posix_platform (f_filename f2)) (f_content f2))"
    by blast
  then have "download 1 later_state = Response 200 (Attachment ''scan1.jpg'' ''JFIF'')"
    and "download 2 later_state = Response 200 (Attachment ''scan1.jpg'' ''OTHER'')"
    by (auto simp: scan1_request_def scan1_again_request_def scan1_file_def
        scan1_again_file_def secure_scan1)
  moreover have "map filename (items later_state) =
      [''20240102030405000007_scan1.jpg'', ''20240102030405000008_scan1.jpg'']"
    by (simp add: later_state_def)
  ultimately show ?thesis
    using v1 v2 ne a upload_scan1 upload_scan1_again_later by (intro conjI)
qed

text \<open>
  Claim C5 as the spec states it fails: two creates of \<open>scan1.jpg\<close> that read the same
  clock value get the same stored name, the second file replaces the first, and the
  download of the first id returns the content of the second upload.
\<close>

theorem stored_name_reused_counterexample:
  "upload posix_platform example_env scan1_request empty_state =
     (Response 201 (Success_id 1), scan1_state) \<and>
   upload posix_platform example_env scan1_again_request scan1_state =
     (Response 201 (Success_id 2), collided_state) \<and>
   map filename (items collided_state) =
     [''20240102030405000007_scan1.jpg'', ''20240102030405000007_scan1.jpg''] \<and>
   download 1 collided_state = Response 200 (Attachment ''scan1.jpg'' ''OTHER'')"
proof -
  have "map filename (items collided_state) =
      [''20240102030405000007_scan1.jpg'', ''20240102030405000007_scan1.jpg'']"
    by (simp add: collided_state_def)
  moreover have "download 1 collided_state = Response 200 (Attachment ''scan1.jpg'' ''OTHER'')"
    by (simp add: download_def select_by_id_def send_from_directory_def collided_state_def)
  ultimately show ?thesis
    using upload_scan1 upload_scan1_again_same by (intro conjI)
qed

section \<open>The order of the two writes of a delete\<close>

lemma delete_item_trace_found:
  assumes "select_by_id i s = Some row"
  shows "delete_item_trace ok i s =
     [remove_file ok (filename row) s, delete_row i (remove_file ok (filename row) s)]"
  using assms by (simp add: delete_item_trace_def Let_def)

lemma select_by_id_in_items:
  "select_by_id i s = Some row \<Longrightarrow> row \<in> set (items s) \<and> item_id row = i"
  by (auto simp: select_by_id_def find_Some_iff)

text \<open>
  Claim C2, as amended. The spec asks that the row be deleted before or together with
  the blob. The code works in the other order: during the delete of an existing item
  the file is removed first, as far as it can be, and the row is deleted after that. The
  state between the two writes still has the row; when the removal succeeded the file it
  names is gone, so this row is dangling. The state at the end has no row of that id and
  the files of the state in between.
\<close>

theorem delete_item_order:
  assumes "select_by_id i s = Some row"
  shows "delete_item_trace remove_ok i s =
           [remove_file remove_ok (filename row) s, snd (delete_item remove_ok i s)] \<and>
         items (remove_file remove_ok (filename row) s) = items s \<and>
         row \<in> set (items (remove_file remove_ok (filename row) s)) \<and>
         (remove_ok \<longrightarrow> uploads (remove_file remove_ok (filename row) s) (filename row) = None \<and>
                        \<not> no_dangling_row (remove_file remove_ok (filename row) s)) \<and>
         (\<forall>name. name \<noteq> filename row \<longrightarrow>
            uploads (remove_file remove_ok (filename row) s) name = uploads s name) \<and>
         items (snd (delete_item remove_ok i s)) = filter (\<lambda>r. item_id r \<noteq> i) (items s) \<and>
         uploads (snd (delete_item remove_ok i s)) =
           uploads (remove_file remove_ok (filename row) s)"
proof -
  let ?s1 = "remove_file remove_ok (filename row) s"
  from assms have row: "row \<in> set (items s)" by (simp add: select_by_id_in_items)
  have d: "snd (delete_item remove_ok i s) = delete_row i ?s1"
    using assms by (simp add: delete_item_found)
  have gone: "uploads ?s1 (filename row) = None" if remove_ok
    using that by (simp add: remove_file_uploads)
  then have "\<not> no_dangling_row ?s1" if remove_ok
    using that row unfolding no_dangling_row_def by auto
  with gone row show ?thesis
    by (simp add: delete_item_trace_found [OF assms] d remove_file_uploads)
qed

theorem delete_item_order_witness:
  "select_by_id 1 scan1_state = Some (hd (items scan1_state)) \<and>
   delete_item_trace True 1 scan1_state =
     [scan1_state\<lparr>uploads := Map.empty\<rparr>, scan1_state\<lparr>uploads := Map.empty, items := []\<rparr>] \<and>
   \<not> no_dangling_row (scan1_state\<lparr>uploads := Map.empty\<rparr>)"
proof -
  have r: "remove_file True (filename (hd (items scan1_state))) scan1_state =
      scan1_state\<lparr>uploads := Map.empty\<rparr>"
    by (simp add: remove_file_def scan1_state_def)
  have d: "snd (delete_item True 1 scan1_state) = scan1_state\<lparr>uploads := Map.empty, items := []\<rparr>"
    unfolding delete_item_found [OF select_scan1] r
    by (simp add: delete_row_def scan1_state_def)
  from delete_item_order [OF select_scan1, of True]
  have "delete_item_trace True 1 scan1_state =
      [remove_file True (filename (hd (items scan1_state))) scan1_state,
       snd (delete_item True 1 scan1_state)]"
    and "\<not> no_dangling_row (remove_file True (filename (hd (items scan1_state))) scan1_state)"
    by simp_all
  then show ?thesis
    unfolding r d using select_scan1 by (intro conjI)
qed

text \<open>
  Claim C2 as the spec states it fails: from a state without dangling rows, the delete of
  item 1 passes through a state where the row of item 1 is present and its file is not.
\<close>

theorem dangling_row_during_delete_counterexample:
  "no_dangling_row scan1_state \<and>
   delete_item_trace True 1 scan1_state =
     [scan1_state\<lparr>uploads := Map.empty\<rparr>, scan1_state\<lparr>uploads := Map.empty, items := []\<rparr>] \<and>
   \<not> no_dangling_row (scan1_state\<lparr>uploads := Map.empty\<rparr>)"
proof -
  have "no_dangling_row scan1_state"
    by (simp add: no_dangling_row_def scan1_state_def)
  moreover have "delete_item_trace True 1 scan1_state =
     [scan1_state\<lparr>uploads := Map.empty\<rparr>, scan1_state\<lparr>uploads := Map.empty, items := []\<rparr>]"
    unfolding delete_item_trace_found [OF select_scan1]
    by (simp add: remove_file_def delete_row_def scan1_state_def)
  moreover have "\<not> no_dangling_row (scan1_state\<lparr>uploads := Map.empty\<rparr>)"
    by (simp add: no_dangling_row_def scan1_state_def)
  ultimately show ?thesis by (intro conjI)
qed

section \<open>The order of the two writes of an upload\<close>

lemma upload_trace_items:
  assumes "s' \<in> set (upload_trace p env req s)"
  shows "items s' = items s \<or>
         (\<exists>row. items s' = items s @ [row] \<and> filename row \<in> written p env req)"
proof (cases "files_file req")
  case None
  with assms show ?thesis by (simp add: upload_trace_def)
next
  case (Some f)
  show ?thesis
  proof (cases "f_filename f = [] \<or> \<not> allowed_file (f_filename f)")
    case True
    with assms Some show ?thesis by (simp add: upload_trace_def)
  next
    case accepted: False
    show ?thesis
    proof (cases "save_result env = Saved")
      case False
      with assms Some accepted have "s' = upload_saved p env f s"
        by (simp add: upload_trace_def Let_def)
      then show ?thesis by (simp add: upload_saved_def)
    next
      case True
      with assms Some accepted have "s' = upload_saved p env f s \<or>
          s' = snd (insert_item (upload_row p env req f) (upload_saved p env f s))"
        by (simp add: upload_trace_def Let_def)
      then show ?thesis
      proof
        assume "s' = upload_saved p env f s"
        then show ?thesis by (simp add: upload_saved_def)
      next
        assume "s' = snd (insert_item (upload_row p env req f) (upload_saved p env f s))"
        then have "items s' = items s @ [(upload_row p env req f)\<lparr>item_id := next_rowid s\<rparr>]"
          by (simp add: insert_item_def Let_def upload_saved_def)
        moreover have "filename ((upload_row p env req f)\<lparr>item_id := next_rowid s\<rparr>)
            \<in> written p env req"
          using Some accepted True by (simp add: written_def upload_row_def)
        ultimately show ?thesis by blast
      qed
    qed
  qed
qed

lemma delete_item_trace_items:
  assumes "s' \<in> set (delete_item_trace ok i s)"
  shows "set (items s') \<subseteq> set (items s)"
  using assms by (auto simp: delete_item_trace_def Let_def split: option.splits)

lemma reachable_rows_written:
  assumes "reachable p s W"
  shows "\<forall>r \<in> set (items s). filename r \<in> W"
  using assms
proof (induction rule: reachable.induct)
  case (start s)
  then show ?case by simp
next
  case (upload_step s W s' env req)
  from upload_trace_items [OF upload_step.hyps(2)] upload_step.IH
  show ?case by auto
next
  case (delete_step s W s' remove_ok i)
  from delete_item_trace_items [OF delete_step.hyps(2)] delete_step.IH
  show ?case by auto
qed

lemma upload_saved_items: "items (upload_saved p env f s) = items s"
  by (simp add: upload_saved_def)

lemma upload_write_fails:
  assumes "files_file req = Some f" "f_filename f \<noteq> []" "allowed_file (f_filename f)"
    and "save_result env \<noteq> Saved"
  shows "upload p env req s = (Response 500 Internal_server_error, upload_saved p env f s)"
  using assms by (simp add: upload_def)

lemma upload_trace_accepted:
  assumes "files_file req = Some f" "f_filename f \<noteq> []" "allowed_file (f_filename f)"
    and "save_result env = Saved"
  shows "upload_trace p env req s = [upload_saved p env f s, snd (upload p env req s)]"
  using assms by (simp add: upload_trace_def upload_def Let_def split: prod.splits)

text \<open>
  Claim C8. In every state that the service can reach from an empty table, also between
  the two writes of an upload or of a delete, each row names a file that an upload has
  written before. For every accepted request in such a state: if the write of the file
  fails, the upload ends with an error and the table is as before; if it succeeds, the
  state after the first write has the file with the uploaded content and the table as
  before, and only the second write adds the row, which names that file.
\<close>

theorem row_only_after_blob:
  assumes "reachable p s W"
  shows "(\<forall>r \<in> set (items s). filename r \<in> W) \<and>
    (\<forall>env (req :: upload_request) f. files_file req = Some f \<and> f_filename f \<noteq> [] \<and> allowed_file (f_filename f) \<longrightarrow>
       (if save_result env = Saved
        then upload_trace p env req s = [upload_saved p env f s, snd (upload p env req s)] \<and>
             items (upload_saved p env f s) = items s \<and>
             uploads (upload_saved p env f s) (stored_name p (now_stamp env) (f_filename f)) =
               Some (f_content f) \<and>
             (\<exists>row. items (snd (upload p env req s)) = items s @ [row] \<and>
                    filename row = stored_name p (now_stamp env) (f_filename f)) \<and>
             uploads (snd (upload p env req s)) = uploads (upload_saved p env f s)
        else fst (upload p env req s) = Response 500 Internal_server_error \<and>
             items (snd (upload p env req s)) = items s))"
proof (intro conjI allI impI)
  show "\<forall>r \<in> set (items s). filename r \<in> W"
    using assms by (rule reachable_rows_written)
next
  fix env and req :: upload_request and f
  assume a: "files_file req = Some f \<and> f_filename f \<noteq> [] \<and> allowed_file (f_filename f)"
  show "if save_result env = Saved
        then upload_trace p env req s = [upload_saved p env f s, snd (upload p env req s)] \<and>
             items (upload_saved p env f s) = items s \<and>
             uploads (upload_saved p env f s) (stored_name p (now_stamp env) (f_filename f)) =
               Some (f_content f) \<and>
             (\<exists>row. items (snd (upload p env req s)) = items s @ [row] \<and>
                    filename row = stored_name p (now_stamp env) (f_filename f)) \<and>
             uploads (snd (upload p env req s)) = uploads (upload_saved p env f s)
        else fst (upload p env req s) = Response 500 Internal_server_error \<and>
             items (snd (upload p env req s)) = items s"
  proof (cases "save_result env = Saved")
    case True
    with a have u: "upload p env req s =
        (Response 201 (Success_id (next_rowid s)),
         s\<lparr>uploads := (uploads s)(stored_name p (now_stamp env) (f_filename f) \<mapsto> f_content f),
           items := items s @ [(upload_row p env req f)\<lparr>item_id := next_rowid s\<rparr>],
           sqlite_sequence := next_rowid s\<rparr>)"
      by (simp add: upload_accepted)
    from a True have t: "upload_trace p env req s =
        [upload_saved p env f s, snd (upload p env req s)]"
      by (simp add: upload_trace_accepted)
    have "filename ((upload_row p env req f)\<lparr>item_id := next_rowid s\<rparr>) =
        stored_name p (now_stamp env) (f_filename f)"
      by (simp add: upload_row_def)
    then have "\<exists>row. items (snd (upload p env req s)) = items s @ [row] \<and>
        filename row = stored_name p (now_stamp env) (f_filename f)"
      by (simp add: u)
    then show ?thesis
      using True t by (simp add: u upload_saved_def)
  next
    case False
    with a show ?thesis
      by (simp add: upload_write_fails upload_saved_items)
  qed
qed

lemma reachable_scan1_state:
  "reachable posix_platform scan1_state {''20240102030405000007_scan1.jpg''}"
proof -
  have "items empty_state = []" by (simp add: empty_state_def)
  then have "reachable posix_platform empty_state {}" by (rule reachable.start)
  moreover have "upload_trace posix_platform example_env scan1_request empty_state =
      [upload_saved posix_platform example_env scan1_file empty_state,
       snd (upload posix_platform example_env scan1_request empty_state)]"
    by (rule upload_trace_accepted)
      (simp_all add: scan1_request_def scan1_file_def allowed_scan1 example_env_def)
  then have "scan1_state \<in> set (upload_trace posix_platform example_env scan1_request empty_state)"
    by (simp add: upload_scan1)
  ultimately have "reachable posix_platform scan1_state
      ({} \<union> written posix_platform example_env scan1_request)"
    by (rule reachable.upload_step)
  moreover have "written posix_platform example_env scan1_request =
      {''20240102030405000007_scan1.jpg''}"
    by (simp add: written_def scan1_request_def scan1_file_def allowed_scan1 example_env_def
        stored_name_def secure_scan1 strftime_stamp_def example_time_def zpad_numeral)
  ultimately show ?thesis by simp
qed

theorem row_only_after_blob_witness:
  "reachable posix_platform scan1_state {''20240102030405000007_scan1.jpg''} \<and>
   map filename (items scan1_state) = [''20240102030405000007_scan1.jpg''] \<and>
   files_file scan1_again_request = Some scan1_again_file \<and>
   f_filename scan1_again_file \<noteq> [] \<and> allowed_file (f_filename scan1_again_file) \<and>
   save_result failing_env \<noteq> Saved \<and>
   fst (upload posix_platform failing_env scan1_again_request scan1_state) =
     Response 500 Internal_server_error \<and>
   items (snd (upload posix_platform failing_env scan1_again_request scan1_state)) =
     items scan1_state \<and>
   save_result later_env = Saved \<and>
   upload_trace posix_platform later_env scan1_again_request scan1_state =
     [upload_saved posix_platform later_env scan1_again_file scan1_state, later_state]"
proof -
  note r = row_only_after_blob [OF reachable_scan1_state]
  have a: "files_file scan1_again_request = Some scan1_again_file \<and>
      f_filename scan1_again_file \<noteq> [] \<and> allowed_file (f_filename scan1_again_file)"
    by (simp add: scan1_again_request_def scan1_again_file_def allowed_scan1)
  have f: "save_result failing_env \<noteq> Saved"
    by (simp add: failing_env_def example_env_def)
  have l: "save_result later_env = Saved"
    by (simp add: later_env_def)
  from r have "\<forall>r \<in> set (items scan1_state).
      filename r \<in> {''20240102030405000007_scan1.jpg''}"
    by (rule conjunct1)
  have rows: "map filename (items scan1_state) = [''20240102030405000007_scan1.jpg'']"
    by (simp add: scan1_state_def)
  note i = r [THEN conjunct2, rule_format, OF a]
  from i [of failing_env] f have failed:
    "fst (upload posix_platform failing_env scan1_again_request scan1_state) =
       Response 500 Internal_server_error \<and>
     items (snd (upload posix_platform failing_env scan1_again_request scan1_state)) =
       items scan1_state"
    by (simp only: if_False)
  from i [of later_env] l
  have "upload_trace posix_platform later_env scan1_again_request scan1_state =
      [upload_saved posix_platform later_env scan1_again_file scan1_state,
       snd (upload posix_platform later_env scan1_again_request scan1_state)]"
    by (simp only: if_True simp_thms)
  then have trace: "upload_trace posix_platform later_env scan1_again_request scan1_state =
      [upload_saved posix_platform later_env scan1_again_file scan1_state, later_state]"
    by (simp add: upload_scan1_again_later)
  from reachable_scan1_state rows a f failed l trace show ?thesis
    by (simp only: simp_thms)
qed

section \<open>Listing and searching\<close>

lemma order_by_uploaded_at_desc_sorted:
  "sorted_wrt (\<lambda>a b. a \<ge> b) (map uploaded_at (order_by_uploaded_at_desc rows))"
proof -
  have "sorted (map uploaded_at (sort_key uploaded_at rows))" by simp
  then have "sorted_wrt (\<lambda>a b. a \<ge> b) (rev (map uploaded_at (sort_key uploaded_at rows)))"
    by (simp add: sorted_wrt_rev)
  then show ?thesis
    by (simp add: order_by_uploaded_at_desc_def rev_map)
qed

lemma order_by_uploaded_at_desc_set:
  "set (order_by_uploaded_at_desc rows) = set rows \<and>
   length (order_by_uploaded_at_desc rows) = length rows"
  by (simp add: order_by_uploaded_at_desc_def)

lemma sql_like_percent: "sql_like ''%'' s"
  by (induction s) auto

lemma sql_like_percent_first:
  "sql_like (CHR ''%'' # p) s \<longleftrightarrow> (\<exists>xs ys. s = xs @ ys \<and> sql_like p ys)"
proof (induction s)
  case Nil
  then show ?case by simp
next
  case (Cons c cs)
  show ?case
  proof
    assume "sql_like (CHR ''%'' # p) (c # cs)"
    then have "sql_like p (c # cs) \<or> sql_like (CHR ''%'' # p) cs" by simp
    then show "\<exists>xs ys. c # cs = xs @ ys \<and> sql_like p ys"
    proof
      assume "sql_like p (c # cs)"
      then have "c # cs = [] @ (c # cs) \<and> sql_like p (c # cs)" by simp
      then show ?thesis by blast
    next
      assume "sql_like (CHR ''%'' # p) cs"
      with Cons.IH obtain xs ys where "cs = xs @ ys" "sql_like p ys" by blast
      then have "c # cs = (c # xs) @ ys \<and> sql_like p ys" by simp
      then show ?thesis by blast
    qed
  next
    assume "\<exists>xs ys. c # cs = xs @ ys \<and> sql_like p ys"
    then obtain xs ys where s: "c # cs = xs @ ys" and l: "sql_like p ys" by blast
    show "sql_like (CHR ''%'' # p) (c # cs)"
    proof (cases xs)
      case Nil
      with s have "ys = c # cs" by simp
      with l show ?thesis by simp
    next
      case (Cons x xs')
      with s have "cs = xs' @ ys" by simp
      with l Cons.IH have "sql_like (CHR ''%'' # p) cs" by blast
      then show ?thesis by simp
    qed
  qed
qed

lemma sql_like_plain_prefix:
  assumes "CHR ''%'' \<notin> set q" "CHR ''_'' \<notin> set q"
  shows "sql_like (q @ ''%'') s \<longleftrightarrow>
           (\<exists>m ys. s = m @ ys \<and> map sql_lower_char m = map sql_lower_char q)"
  using assms
proof (induction q arbitrary: s)
  case Nil
  then show ?case by (simp add: sql_like_percent)
next
  case (Cons a q)
  then have a: "a \<noteq> CHR ''%''" "a \<noteq> CHR ''_''" and q: "CHR ''%'' \<notin> set q" "CHR ''_'' \<notin> set q"
    by auto
  show ?case
  proof (cases s)
    case Nil
    with a show ?thesis by simp
  next
    case (Cons c cs)
    have "sql_like ((a # q) @ ''%'') (c # cs) \<longleftrightarrow>
        sql_lower_char a = sql_lower_char c \<and> sql_like (q @ ''%'') cs"
      using a by simp
    also have "\<dots> \<longleftrightarrow> sql_lower_char a = sql_lower_char c \<and>
        (\<exists>m ys. cs = m @ ys \<and> map sql_lower_char m = map sql_lower_char q)"
      using Cons.IH [OF q] by simp
    also have "\<dots> \<longleftrightarrow>
        (\<exists>m ys. c # cs = m @ ys \<and> map sql_lower_char m = map sql_lower_char (a # q))"
    proof
      assume "sql_lower_char a = sql_lower_char c \<and>
        (\<exists>m ys. cs = m @ ys \<and> map sql_lower_char m = map sql_lower_char q)"
      then obtain m ys where "sql_lower_char a = sql_lower_char c" "cs = m @ ys"
        "map sql_lower_char m = map sql_lower_char q" by blast
      then have "c # cs = (c # m) @ ys \<and>
          map sql_lower_char (c # m) = map sql_lower_char (a # q)" by simp
      then show "\<exists>m ys. c # cs = m @ ys \<and> map sql_lower_char m = map sql_lower_char (a # q)"
        by blast
    next
      assume "\<exists>m ys. c # cs = m @ ys \<and> map sql_lower_char m = map sql_lower_char (a # q)"
      then obtain m ys where s: "c # cs = m @ ys"
        and m: "map sql_lower_char m = map sql_lower_char (a # q)" by blast
      from m obtain x m' where "m = x # m'" by (cases m) auto
      with s m show "sql_lower_char a = sql_lower_char c \<and>
        (\<exists>m ys. cs = m @ ys \<and> map sql_lower_char m = map sql_lower_char q)"
        by auto
    qed
    finally show ?thesis using Cons by simp
  qed
qed

lemma sql_like_plain_substring:
  assumes "CHR ''%'' \<notin> set q" "CHR ''_'' \<notin> set q"
  shows "sql_like (''%'' @ q @ ''%'') s \<longleftrightarrow> sublist (sql_lower q) (sql_lower s)"
proof
  assume "sql_like (''%'' @ q @ ''%'') s"
  then have "\<exists>xs ys. s = xs @ ys \<and> sql_like (q @ ''%'') ys"
    using sql_like_percent_first [of "q @ ''%''" s] by simp
  then obtain xs ys where s: "s = xs @ ys" and "sql_like (q @ ''%'') ys" by blast
  then have "\<exists>m zs. ys = m @ zs \<and> map sql_lower_char m = map sql_lower_char q"
    by (simp only: sql_like_plain_prefix [OF assms])
  then obtain m zs where "ys = m @ zs" "map sql_lower_char m = map sql_lower_char q"
    by blast
  with s have "sql_lower s = sql_lower xs @ sql_lower q @ sql_lower zs"
    by (simp add: sql_lower_def)
  then show "sublist (sql_lower q) (sql_lower s)"
    unfolding sublist_def by blast
next
  assume "sublist (sql_lower q) (sql_lower s)"
  then obtain ps ss where "map sql_lower_char s = ps @ (map sql_lower_char q @ ss)"
    unfolding sublist_def sql_lower_def by blast
  then have "\<exists>us vs. s = us @ vs \<and> ps = map sql_lower_char us \<and>
      map sql_lower_char q @ ss = map sql_lower_char vs"
    by (simp only: map_eq_append_conv)
  then obtain us vs where s: "s = us @ vs"
    and "map sql_lower_char q @ ss = map sql_lower_char vs" by blast
  then have "\<exists>m ys. vs = m @ ys \<and> map sql_lower_char q = map sql_lower_char m \<and>
      ss = map sql_lower_char ys"
    by (simp only: append_eq_map_conv)
  then obtain m ys where "vs = m @ ys" "map sql_lower_char m = map sql_lower_char q"
    by metis
  then have "sql_like (q @ ''%'') vs"
    unfolding sql_like_plain_prefix [OF assms] by blast
  with s have "\<exists>xs ys. s = xs @ ys \<and> sql_like (q @ ''%'') ys" by blast
  then show "sql_like (''%'' @ q @ ''%'') s"
    using sql_like_percent_first [of "q @ ''%''" s] by simp
qed

lemma sql_lower_idem: "sql_lower (sql_lower s) = sql_lower s"
proof -
  have "sql_lower_char (sql_lower_char c) = sql_lower_char c" for c
    by (auto simp: sql_lower_char_def is_upper_ascii_def less_eq_char_def)
  then show ?thesis by (simp add: sql_lower_def)
qed

lemma py_lower_ascii: "\<forall>c \<in> set s. is_ascii c \<Longrightarrow> py_lower s = sql_lower s"
proof -
  have "py_lower_char c = sql_lower_char c" if "is_ascii c" for c
    using that
    by (auto simp: py_lower_char_def sql_lower_char_def is_upper_ascii_def is_ascii_def
        less_eq_char_def Let_def)
  then show "\<forall>c \<in> set s. is_ascii c \<Longrightarrow> py_lower s = sql_lower s"
    by (simp add: py_lower_def sql_lower_def)
qed

lemma list_items_without_query:
  "\<exists>rows. list_items None s = Response 200 (Item_list rows) \<and>
     set rows = set (items s) \<and> length rows = length (items s) \<and>
     sorted_wrt (\<lambda>a b. a \<ge> b) (map uploaded_at rows)"
  by (simp add: list_items_def or_empty_def py_strip_Nil py_lower_def
      order_by_uploaded_at_desc_sorted order_by_uploaded_at_desc_set)

lemma list_items_plain_query:
  assumes "q = py_lower (py_strip arg)" "q \<noteq> []" "CHR ''%'' \<notin> set q" "CHR ''_'' \<notin> set q"
  shows "\<exists>rows. list_items (Some arg) s = Response 200 (Item_list rows) \<and>
     set rows = {r \<in> set (items s).
        sublist (sql_lower q) (sql_lower (title r)) \<or>
        sublist (sql_lower q) (sql_lower (description r)) \<or>
        sublist (sql_lower q) (sql_lower (tags r))} \<and>
     sorted_wrt (\<lambda>a b. a \<ge> b) (map uploaded_at rows)"
proof -
  let ?match = "\<lambda>r. sql_like (''%'' @ q @ ''%'') (sql_lower (title r)) \<or>
      sql_like (''%'' @ q @ ''%'') (sql_lower (description r)) \<or>
      sql_like (''%'' @ q @ ''%'') (sql_lower (tags r))"
  have "list_items (Some arg) s =
      Response 200 (Item_list (order_by_uploaded_at_desc (filter ?match (items s))))"
    using assms(1,2) by (simp add: list_items_def or_empty_def Let_def)
  moreover have "sql_like (CHR ''%'' # q @ ''%'') (sql_lower x) \<longleftrightarrow>
      sublist (sql_lower q) (sql_lower x)" for x
    using sql_like_plain_substring [OF assms(3,4), of "sql_lower x"]
    by (simp add: sql_lower_idem)
  ultimately show ?thesis
    by (simp add: order_by_uploaded_at_desc_sorted order_by_uploaded_at_desc_set)
qed

lemma abc_item_fields_without_a_c:
  "\<not> contains_ci ''a_c'' ''abc'' \<and> \<not> contains_ci ''a_c'' ''first'' \<and>
   \<not> contains_ci ''a_c'' ''x,y''"
  by (simp add: contains_ci_def py_lower_def char_eval sublist_Cons_right)

lemma order_search_state: "order_by_uploaded_at_desc [abc_item, a_c_item] = [a_c_item, abc_item]"
  by (simp add: order_by_uploaded_at_desc_def abc_item_def a_c_item_def)

text \<open>
  Claim C3 asks that a search return exactly the items of which the title, the
  description or the tags contain the query as a case-insensitive substring, by
  \<open>uploaded_at\<close> descending. The lemmas above show that \<open>list_items\<close> does so, with
  case ignored for the letters A to Z, for a query without the characters \<open>%\<close> and
  \<open>_\<close>, and that it returns all items in that order when there is no query. The query is
  put into the LIKE pattern as it is, though, so these two characters act as wildcards. With the query \<open>a_c\<close>, the item titled \<open>abc\<close> is
  returned next to the item titled \<open>a_c\<close>, and none of its three fields contains \<open>a_c\<close>.
\<close>

theorem list_items_wildcard_query:
  "list_items (Some ''a_c'') search_state = Response 200 (Item_list [a_c_item, abc_item]) \<and>
   \<not> contains_ci ''a_c'' (title abc_item) \<and>
   \<not> contains_ci ''a_c'' (description abc_item) \<and>
   \<not> contains_ci ''a_c'' (tags abc_item)"
proof -
  have q: "py_lower (py_strip (or_empty (Some ''a_c''))) = ''a_c''"
    by (simp add: or_empty_def py_strip_def py_lower_def char_eval)
  have "sql_like ''%a_c%'' (sql_lower (title abc_item))"
    by (simp add: abc_item_def sql_lower_def char_eval)
  moreover have "sql_like ''%a_c%'' (sql_lower (title a_c_item))"
    by (simp add: a_c_item_def sql_lower_def char_eval)
  ultimately have "list_items (Some ''a_c'') search_state =
      Response 200 (Item_list (order_by_uploaded_at_desc [abc_item, a_c_item]))"
    by (simp add: list_items_def q search_state_def)
  then show ?thesis
    using abc_item_fields_without_a_c by (simp add: order_search_state) (simp add: abc_item_def)
qed

end
